theory Spec2Isabelle
  imports Complex_Main
begin

section \<open>Errors\<close>

text \<open>
  The program raises plain JavaScript \<open>Error\<close> objects that differ only in their message.
  Each \<open>throw new Error(...)\<close> site of the source is one constructor of \<open>js_error\<close>.
  What a library call (HTTP request, file system, write stream, transcoder) raises is a
  \<open>lib_error\<close>: an \<open>Error\<close> instance with its message, or a thrown value that is not an
  \<open>Error\<close>; \<open>Thrown\<close> is such a value propagating unchanged through the program.
\<close>

datatype lib_error = LibError string | LibNonError

datatype js_error =
    NoExtractorFound string          \<comment> \<open>\<open>No extractor found for URL: ${url}\<close>\<close>
  | NoSuitableStream                 \<comment> \<open>\<open>No suitable stream found\<close>\<close>
  | DownloadFailedAfter nat string   \<comment> \<open>\<open>Download failed after ${retries} attempts: ${message}\<close>\<close>
  | DownloadFailedBare               \<comment> \<open>\<open>Download failed\<close>\<close>
  | AudioConversionFailed "string option"  \<comment> \<open>\<open>Audio conversion failed: ${conversionResult.error}\<close>\<close>
  | FileInfoFailed string            \<comment> \<open>\<open>Failed to get file info: ${message}\<close>\<close>
  | HttpExtractFailed string         \<comment> \<open>\<open>Failed to extract HTTP file info: ${message}\<close>\<close>
  | ExtractionFailed string         \<comment> \<open>an error raised by a site extractor, with its message\<close>
  | Thrown lib_error

fun string_of_nat :: "nat \<Rightarrow> string" where
  "string_of_nat n =
     (if n < 10 then [char_of (48 + n)]
      else string_of_nat (n div 10) @ [char_of (48 + n mod 10)])"

declare string_of_nat.simps [simp del]

text \<open>\<open>error.message\<close> for an \<open>Error\<close> instance; \<open>None\<close> for a thrown non-\<open>Error\<close>.\<close>

fun message :: "js_error \<Rightarrow> string option" where
  "message (NoExtractorFound u) = Some (''No extractor found for URL: '' @ u)"
| "message NoSuitableStream = Some ''No suitable stream found''"
| "message (DownloadFailedAfter n m) =
     Some (''Download failed after '' @ string_of_nat n @ '' attempts: '' @ m)"
| "message DownloadFailedBare = Some ''Download failed''"
| "message (AudioConversionFailed e) =
     Some (''Audio conversion failed: '' @ (case e of None \<Rightarrow> ''undefined'' | Some m \<Rightarrow> m))"
| "message (FileInfoFailed m) = Some (''Failed to get file info: '' @ m)"
| "message (HttpExtractFailed m) = Some (''Failed to extract HTTP file info: '' @ m)"
| "message (ExtractionFailed m) = Some m"
| "message (Thrown (LibError m)) = Some m"
| "message (Thrown LibNonError) = None"

text \<open>\<open>error instanceof Error ? error.message : 'Unknown error'\<close>\<close>

definition catch_message :: "js_error \<Rightarrow> string" where
  "catch_message e = (case message e of Some m \<Rightarrow> m | None \<Rightarrow> ''Unknown error'')"

section \<open>Data model\<close>

record StreamInfo =
  url :: string
  format :: string
  quality :: string
  fileSize :: "int option option"     \<comment> \<open>absent, or a number; \<open>Some None\<close> is \<open>NaN\<close>\<close>
  codec :: "string option"
  headers :: "(string \<times> string) list option"

record SubtitleInfo =
  sub_url :: string
  language :: string
  sub_format :: string

record ExtractResult =
  title :: string
  description :: "string option"
  duration :: "nat option"
  thumbnail :: "string option"
  streams :: "StreamInfo list"
  subtitles :: "SubtitleInfo list option"
  originalUrl :: string

datatype status = Pending | Downloading | Completed | Errored | Paused

record DownloadProgress =
  downloadId :: string
  p_url :: string
  p_title :: string
  progress :: nat
  downloadedBytes :: nat
  totalBytes :: nat
  speed :: nat
  status :: status
  error :: "string option"

record DownloadOptions =
  outputPath :: string
  o_format :: "string option"
  o_quality :: "string option"
  audioQuality :: "string option"

text \<open>
  The callbacks \<open>onProgress\<close> and \<open>onAudioConversion\<close> of \<open>DownloadOptions\<close> are not fields of
  the record: every \<open>options.onProgress?.(progress)\<close> of the source appends the job record,
  as it is at that moment, to the log \<open>reports\<close> of the world below.
\<close>

text \<open>JavaScript truthiness of an optional string: defined and not empty.\<close>

definition truthy :: "string option \<Rightarrow> bool" where
  "truthy s = (case s of None \<Rightarrow> False | Some v \<Rightarrow> v \<noteq> [])"

section \<open>Audio conversion adapter\<close>

record QualitySettings =
  audioBitrate :: "string option"

text \<open>
  \<open>AudioProcessor.getQualitySettings(format, quality = 'medium')\<close>: an absent quality takes
  the default, and inside each format every quality other than \<open>low\<close> and \<open>high\<close> falls to
  the \<open>default:\<close> branch of the inner switch.
\<close>

definition getQualitySettings :: "string \<Rightarrow> string option \<Rightarrow> QualitySettings" where
  "getQualitySettings fmt quality_arg =
     (let q = (case quality_arg of None \<Rightarrow> ''medium'' | Some v \<Rightarrow> v) in
      if fmt = ''mp3'' then
        (if q = ''low'' then \<lparr>audioBitrate = Some ''128k''\<rparr>
         else if q = ''high'' then \<lparr>audioBitrate = Some ''320k''\<rparr>
         else \<lparr>audioBitrate = Some ''192k''\<rparr>)
      else if fmt = ''wav'' then \<lparr>audioBitrate = None\<rparr>
      else if fmt = ''aac'' \<or> fmt = ''m4a'' then
        (if q = ''low'' then \<lparr>audioBitrate = Some ''96k''\<rparr>
         else if q = ''high'' then \<lparr>audioBitrate = Some ''256k''\<rparr>
         else \<lparr>audioBitrate = Some ''128k''\<rparr>)
      else \<lparr>audioBitrate = None\<rparr>)"

definition getAudioCodec :: "string \<Rightarrow> string" where
  "getAudioCodec fmt =
     (if fmt = ''mp3'' then ''libmp3lame''
      else if fmt = ''wav'' then ''pcm_s16le''
      else if fmt = ''aac'' \<or> fmt = ''m4a'' then ''aac''
      else ''libmp3lame'')"

record AudioConversionOptions =
  inputPath :: string
  a_outputPath :: string
  a_format :: string
  a_quality :: "string option"

record AudioConversionResult =
  success :: bool
  r_outputPath :: "string option"
  r_error :: "string option"

text \<open>
  The transcoder invocation that \<open>convertToAudio\<close> builds with the fluent interface. A
  command starts from the input alone (\<open>ffmpeg(input)\<close>), each method of the chain sets one
  part of it, and \<open>.save(output)\<close> hands it to the transcoder.
\<close>

record ffmpeg_command =
  c_input :: string
  c_noVideo :: bool
  c_audioCodec :: "string option"
  c_format :: "string option"
  c_audioBitrate :: "string option"
  c_output :: "string option"

definition ffmpeg_input :: "string \<Rightarrow> ffmpeg_command" where
  "ffmpeg_input i =
     \<lparr>c_input = i, c_noVideo = False, c_audioCodec = None, c_format = None,
      c_audioBitrate = None, c_output = None\<rparr>"

definition cmd_noVideo :: "ffmpeg_command \<Rightarrow> ffmpeg_command" where
  "cmd_noVideo c = c\<lparr>c_noVideo := True\<rparr>"

definition cmd_audioCodec :: "string \<Rightarrow> ffmpeg_command \<Rightarrow> ffmpeg_command" where
  "cmd_audioCodec codec_v c = c\<lparr>c_audioCodec := Some codec_v\<rparr>"

definition cmd_format :: "string \<Rightarrow> ffmpeg_command \<Rightarrow> ffmpeg_command" where
  "cmd_format f c = c\<lparr>c_format := Some f\<rparr>"

definition cmd_audioBitrate :: "string \<Rightarrow> ffmpeg_command \<Rightarrow> ffmpeg_command" where
  "cmd_audioBitrate b c = c\<lparr>c_audioBitrate := Some b\<rparr>"

definition cmd_save :: "string \<Rightarrow> ffmpeg_command \<Rightarrow> ffmpeg_command" where
  "cmd_save out c = c\<lparr>c_output := Some out\<rparr>"

text \<open>
  The command of one call, in the order of the source: \<open>.noVideo()\<close> and \<open>.audioCodec(..)\<close>,
  then \<open>.format('adts')\<close> for \<open>aac\<close> and \<open>.format(format)\<close> otherwise, then \<open>.audioBitrate(..)\<close>
  only when the quality settings carry a truthy bitrate, then \<open>.save(outputPath)\<close>.
\<close>

definition ffmpeg_command_of :: "AudioConversionOptions \<Rightarrow> ffmpeg_command" where
  "ffmpeg_command_of options =
     (let qualitySettings = getQualitySettings (a_format options) (a_quality options);
          command0 = cmd_audioCodec (getAudioCodec (a_format options))
                       (cmd_noVideo (ffmpeg_input (inputPath options)));
          command1 = (if a_format options = ''aac'' then cmd_format ''adts'' command0
                      else cmd_format (a_format options) command0);
          command2 = (if truthy (audioBitrate qualitySettings)
                      then cmd_audioBitrate (the (audioBitrate qualitySettings)) command1
                      else command1)
      in cmd_save (a_outputPath options) command2)"

text \<open>
  What the transcoder does with a command is outside the program: the subprocess ends
  (\<open>end\<close> event), it fails (\<open>error\<close> event with a message), or the call throws (caught by the
  \<open>try\<close> of \<open>convertToAudio\<close>). \<open>convertToAudio\<close> never throws. It returns its result
  together with the commands it handed to the transcoder, in order. Creating the output
  directory is a matter of the file system and is taken to succeed.
\<close>

datatype ffmpeg_outcome = Ended | Failed string | SaveThrows lib_error

definition convertToAudio ::
  "(ffmpeg_command \<Rightarrow> ffmpeg_outcome) \<Rightarrow> AudioConversionOptions
     \<Rightarrow> AudioConversionResult \<times> ffmpeg_command list" where
  "convertToAudio run_ffmpeg options =
     (let command = ffmpeg_command_of options in
      case run_ffmpeg command of
        Ended \<Rightarrow>
          (\<lparr>success = True, r_outputPath = Some (a_outputPath options), r_error = None\<rparr>,
           [command])
      | Failed m \<Rightarrow>
          (\<lparr>success = False, r_outputPath = None, r_error = Some m\<rparr>, [command])
      | SaveThrows e \<Rightarrow>
          (\<lparr>success = False, r_outputPath = None, r_error = Some (catch_message (Thrown e))\<rparr>,
           [command]))"

section \<open>Extractor registry\<close>

text \<open>
  An extractor is \<open>{name, test, extract}\<close> (the field \<open>extract\<close> is \<open>do_extract\<close> here, the
  plain name being reserved). \<open>extract\<close> is network-bound; its outcome for a
  URL (a result, or the error it raises) is given by the function stored in the record.
\<close>

record Extractor =
  name :: string
  test :: "string \<Rightarrow> bool"
  do_extract :: "string \<Rightarrow> js_error + ExtractResult"

record MediaDownloader =
  extractors :: "Extractor list"
  activeDownloads :: "string \<rightharpoonup> DownloadProgress"

definition new_MediaDownloader :: MediaDownloader where
  "new_MediaDownloader = \<lparr>extractors = [], activeDownloads = Map.empty\<rparr>"

definition registerExtractor :: "MediaDownloader \<Rightarrow> Extractor \<Rightarrow> MediaDownloader" where
  "registerExtractor md extractor = md\<lparr>extractors := extractors md @ [extractor]\<rparr>"

definition findExtractor :: "MediaDownloader \<Rightarrow> string \<Rightarrow> Extractor option" where
  "findExtractor md u = List.find (\<lambda>extractor. test extractor u) (extractors md)"

definition md_extract :: "MediaDownloader \<Rightarrow> string \<Rightarrow> js_error + ExtractResult" where
  "md_extract md u =
     (case findExtractor md u of
        None \<Rightarrow> Inl (NoExtractorFound u)
      | Some extractor \<Rightarrow> do_extract extractor u)"

section \<open>Stream selection\<close>

text \<open>\<open>Array.prototype.indexOf\<close>: the first index of the element, or \<open>-1\<close>.\<close>

fun indexOf :: "'a list \<Rightarrow> 'a \<Rightarrow> int" where
  "indexOf [] x = -1"
| "indexOf (y # ys) x =
     (if x = y then 0 else (let i = indexOf ys x in if i = -1 then -1 else i + 1))"

definition qualityOrder :: "string list" where
  "qualityOrder = [''2160p'', ''1440p'', ''1080p'', ''720p'', ''480p'', ''360p'', ''240p'']"

text \<open>The sort key of the comparator: \<open>aIndex === -1 ? 999 : aIndex\<close>.\<close>

definition qualityRank :: "string \<Rightarrow> int" where
  "qualityRank q = (let i = indexOf qualityOrder q in if i = -1 then 999 else i)"

text \<open>
  \<open>selectBestStream\<close>. A hint is used only when it is truthy, and a hint that no stream
  matches falls through to the next rule. The comparator of the final \<open>sort\<close> is the
  difference of two ranks, and \<open>Array.prototype.sort\<close> is stable, so the sort is the stable
  sort by rank (\<open>sort_key\<close> is a stable insertion sort); \<open>[0] || null\<close> is its first element.
\<close>

definition selectBestStream :: "StreamInfo list \<Rightarrow> DownloadOptions \<Rightarrow> StreamInfo option" where
  "selectBestStream streams_arg options =
     (case (if truthy (o_quality options)
            then List.find (\<lambda>s. Some (quality s) = o_quality options) streams_arg
            else None) of
        Some qualityMatch \<Rightarrow> Some qualityMatch
      | None \<Rightarrow>
          (case (if truthy (o_format options)
                 then List.find (\<lambda>s. Some (format s) = o_format options) streams_arg
                 else None) of
             Some formatMatch \<Rightarrow> Some formatMatch
           | None \<Rightarrow>
               (case sort_key (\<lambda>s. qualityRank (quality s)) streams_arg of
                  [] \<Rightarrow> None
                | best # _ \<Rightarrow> Some best)))"

text \<open>
  The ladder as the specification words it, for comparison with \<open>qualityOrder\<close>: eight video
  labels down to \<open>144p\<close>, then the audio ranks.
\<close>

definition claimed_qualityOrder :: "string list" where
  "claimed_qualityOrder =
     [''2160p'', ''1440p'', ''1080p'', ''720p'', ''480p'', ''360p'', ''240p'', ''144p'',
      ''high'', ''medium'', ''low'']"

definition claimed_qualityRank :: "string \<Rightarrow> int" where
  "claimed_qualityRank q = (let i = indexOf claimed_qualityOrder q in if i = -1 then 999 else i)"

section \<open>String and URL helpers of the platform\<close>

text \<open>
  The built-ins the source calls, over ASCII strings. \<open>split_char\<close> is \<open>String.split\<close> with
  a one-character separator (the result is never empty), \<open>pop\<close> is \<open>Array.pop\<close>, \<open>or_else\<close> is
  \<open>x || d\<close> on a possibly undefined string, \<open>replace_first\<close> is \<open>String.replace\<close> with a
  string pattern (first occurrence only).
\<close>

definition toLowerCase :: "string \<Rightarrow> string" where
  "toLowerCase s =
     map (\<lambda>c. case map_of (zip ''ABCDEFGHIJKLMNOPQRSTUVWXYZ'' ''abcdefghijklmnopqrstuvwxyz'') c of
               Some l \<Rightarrow> l | None \<Rightarrow> c) s"

definition startsWith :: "string \<Rightarrow> string \<Rightarrow> bool" where
  "startsWith s p = (take (length p) s = p)"

definition endsWith :: "string \<Rightarrow> string \<Rightarrow> bool" where
  "endsWith s p = (length p \<le> length s \<and> drop (length s - length p) s = p)"

fun split_char :: "char \<Rightarrow> string \<Rightarrow> string list" where
  "split_char c [] = [[]]"
| "split_char c (x # xs) =
     (if x = c then [] # split_char c xs
      else (case split_char c xs of w # ws \<Rightarrow> (x # w) # ws | [] \<Rightarrow> [[x]]))"

definition pop :: "'a list \<Rightarrow> 'a option" where
  "pop xs = (if xs = [] then None else Some (last xs))"

definition or_else :: "string option \<Rightarrow> string \<Rightarrow> string" where
  "or_else s d = (if truthy s then the s else d)"

fun replace_first :: "string \<Rightarrow> string \<Rightarrow> string \<Rightarrow> string" where
  "replace_first pat rep [] = (if pat = [] then rep else [])"
| "replace_first pat rep (c # cs) =
     (if startsWith (c # cs) pat then rep @ drop (length pat) (c # cs)
      else c # replace_first pat rep cs)"

text \<open>
  \<open>URL_pathname\<close> stands for \<open>new URL(s).pathname\<close> (\<open>None\<close> where the constructor throws) on
  the inputs of the worked scenarios only: a scheme (a letter, then letters, digits, \<open>+\<close>,
  \<open>-\<close>, \<open>.\<close>), \<open>://\<close>, a non-empty authority, and the path up to the first \<open>?\<close> or \<open>#\<close> (\<open>/\<close>
  when empty); anything else, in particular a bare file name, is rejected. It is not the
  platform's parser: that one also accepts URLs without \<open>//\<close>, \<open>file:\<close> URLs, surrounding
  blanks and backslashes, rejects some authorities, percent-encodes and resolves dot
  segments. The extractor below is therefore defined for an arbitrary parser
  (\<open>HttpExtractor_test_with\<close>, \<open>HttpExtractor_extract_with\<close>), and \<open>URL_pathname\<close> is used
  where a run is evaluated at \<open>https://example.com/video.mp4\<close>.
\<close>

definition is_alpha :: "char \<Rightarrow> bool" where
  "is_alpha c = (c \<in> set ''abcdefghijklmnopqrstuvwxyzABCDEFGHIJKLMNOPQRSTUVWXYZ'')"

definition is_digit :: "char \<Rightarrow> bool" where
  "is_digit c = (c \<in> set ''0123456789'')"

definition URL_pathname :: "string \<Rightarrow> string option" where
  "URL_pathname s =
     (let scheme = takeWhile (\<lambda>c. c \<noteq> CHR '':'') s;
          rest = drop (length scheme) s in
      if scheme = [] \<or> \<not> is_alpha (hd scheme)
         \<or> \<not> list_all (\<lambda>c. is_alpha c \<or> is_digit c \<or> c \<in> set ''+-.'') scheme
         \<or> \<not> startsWith rest ''://''
      then None
      else
        (let after = drop 3 rest;
             authority = takeWhile (\<lambda>c. c \<notin> set ''/?#'') after;
             path = takeWhile (\<lambda>c. c \<notin> set ''?#'') (drop (length authority) after) in
         if authority = [] then None
         else Some (if path = [] then ''/'' else path)))"

text \<open>
  \<open>parseInt(s)\<close> with no radix: leading blanks, an optional sign, then after \<open>0x\<close> or \<open>0X\<close>
  the longest run of hexadecimal digits, and otherwise the longest run of decimal digits;
  \<open>None\<close> is \<open>NaN\<close> (no digit). The value is the exact integer; the source has the nearest
  double, which is the same number up to \<open>2 ^ 53\<close>.
\<close>

definition digits_value :: "string \<Rightarrow> int" where
  "digits_value ds = foldl (\<lambda>a c. 10 * a + indexOf ''0123456789'' c) 0 ds"

definition is_hex_digit :: "char \<Rightarrow> bool" where
  "is_hex_digit c = (c \<in> set ''0123456789abcdefABCDEF'')"

definition hex_digits_value :: "string \<Rightarrow> int" where
  "hex_digits_value ds =
     foldl (\<lambda>a c. 16 * a + indexOf ''0123456789abcdef'' c) 0
       (map (\<lambda>c. case map_of (zip ''ABCDEF'' ''abcdef'') c of Some l \<Rightarrow> l | None \<Rightarrow> c) ds)"

definition parseInt :: "string \<Rightarrow> int option" where
  "parseInt s =
     (let t = dropWhile (\<lambda>c. c \<in> set [CHR '' '', CHR 0x09, CHR 0x0A, CHR 0x0B, CHR 0x0C,
                                       CHR 0x0D, CHR 0xA0]) s;
          neg = (t \<noteq> [] \<and> hd t = CHR ''-'');
          u = (if t \<noteq> [] \<and> (hd t = CHR ''-'' \<or> hd t = CHR ''+'') then tl t else t);
          hex = (take 2 u = ''0x'' \<or> take 2 u = ''0X'');
          ds = (if hex then takeWhile is_hex_digit (drop 2 u) else takeWhile is_digit u);
          v = (if hex then hex_digits_value ds else digits_value ds) in
      if ds = [] then None
      else Some (if neg then - v else v))"

section \<open>Metadata probe and generic-file extractor\<close>

text \<open>
  The network is a function from the URL of a \<open>HEAD\<close> request to its outcome: the error the
  HTTP library raises, or the response headers (keys in lower case, as the library gives them).
\<close>

type_synonym head_env = "string \<Rightarrow> lib_error + (string \<times> string) list"

text \<open>\<open>HttpClient.head\<close>: any failure is re-raised as \<open>Failed to get file info: ...\<close>.\<close>

definition head :: "head_env \<Rightarrow> string \<Rightarrow> js_error + (string \<times> string) list" where
  "head net u =
     (case net u of Inl e \<Rightarrow> Inl (FileInfoFailed (catch_message (Thrown e))) | Inr h \<Rightarrow> Inr h)"

record FileInfo =
  contentLength :: "int option option"   \<comment> \<open>absent, or a number; \<open>Some None\<close> is \<open>NaN\<close>\<close>
  contentType :: "string option"
  filename :: "string option"

text \<open>
  \<open>contentDisposition.match(/filename="?([^"]+)"?/)\<close>, the first capture group: at the
  leftmost occurrence of \<open>filename=\<close> that is followed, after an optional quote, by at least
  one character other than a quote, the longest run of such characters.
\<close>

fun match_filename :: "string \<Rightarrow> string option" where
  "match_filename [] = None"
| "match_filename (c # cs) =
     (if startsWith (c # cs) ''filename='' then
        (let rest = drop 9 (c # cs);
             rest' = (if rest \<noteq> [] \<and> hd rest = CHR 0x22 then tl rest else rest);
             cap = takeWhile (\<lambda>x. x \<noteq> CHR 0x22) rest' in
         if cap \<noteq> [] then Some cap else match_filename cs)
      else match_filename cs)"

definition getFileInfo :: "head_env \<Rightarrow> string \<Rightarrow> js_error + FileInfo" where
  "getFileInfo net u =
     (case head net u of
        Inl e \<Rightarrow> Inl (FileInfoFailed (catch_message e))
      | Inr hs \<Rightarrow>
          (let contentLength_h = map_of hs ''content-length'';
               contentType_h = map_of hs ''content-type'';
               contentDisposition = map_of hs ''content-disposition'';
               filename_v = (if truthy contentDisposition
                             then match_filename (the contentDisposition) else None) in
           Inr \<lparr>contentLength =
                  (if truthy contentLength_h then Some (parseInt (the contentLength_h)) else None),
                contentType = contentType_h,
                filename = filename_v\<rparr>))"

text \<open>
  The platform's URL parser is a parameter of the extractor: \<open>parse s\<close> is
  \<open>new URL(s).pathname\<close>, and \<open>None\<close> where the constructor throws. \<open>getFileExtension\<close>, \<open>test\<close>
  and \<open>extract\<close> are first given for an arbitrary parser, then at \<open>URL_pathname\<close>.
\<close>

type_synonym url_parser = "string \<Rightarrow> string option"

definition getFileExtension_with :: "url_parser \<Rightarrow> string \<Rightarrow> string" where
  "getFileExtension_with parse urlOrFilename =
     (case parse urlOrFilename of
        Some pathname \<Rightarrow> or_else (pop (split_char CHR ''.'' pathname)) ''unknown''
      | None \<Rightarrow> or_else (pop (split_char CHR ''.'' urlOrFilename)) ''unknown'')"

definition getFileExtension :: "string \<Rightarrow> string" where
  "getFileExtension urlOrFilename = getFileExtension_with URL_pathname urlOrFilename"

definition mediaExtensions :: "string list" where
  "mediaExtensions = [''.mp4'', ''.mp3'', ''.avi'', ''.mkv'', ''.webm'', ''.m4a'', ''.wav'', ''.flac'']"

text \<open>\<open>HttpExtractor.test\<close>: \<open>false\<close> where the constructor throws.\<close>

definition HttpExtractor_test_with :: "url_parser \<Rightarrow> string \<Rightarrow> bool" where
  "HttpExtractor_test_with parse u =
     (case parse u of
        None \<Rightarrow> False
      | Some pathname \<Rightarrow> list_ex (\<lambda>ext. endsWith (toLowerCase pathname) ext) mediaExtensions)"

definition HttpExtractor_test :: "string \<Rightarrow> bool" where
  "HttpExtractor_test u = HttpExtractor_test_with URL_pathname u"

text \<open>
  The size-bucket block of \<open>extract\<close>: \<open>let quality = 'unknown'; if (fileSize) { ... }\<close>. The
  condition is JavaScript truthiness: a size that is absent, \<open>NaN\<close> or \<open>0\<close> leaves \<open>unknown\<close>.
\<close>

definition quality_of_fileSize :: "int option option \<Rightarrow> string" where
  "quality_of_fileSize fileSize_v =
     (case fileSize_v of
        Some (Some n) \<Rightarrow>
          (if n = 0 then ''unknown''
           else if n > 100 * 1024 * 1024 then ''1080p''
           else if n > 50 * 1024 * 1024 then ''720p''
           else if n > 20 * 1024 * 1024 then ''480p''
           else ''360p'')
      | _ \<Rightarrow> ''unknown'')"

text \<open>
  \<open>HttpExtractor.extract\<close>: the probe first, then the URL is parsed again; whatever is thrown
  inside the \<open>try\<close> is re-raised as \<open>Failed to extract HTTP file info: ...\<close>.
\<close>

definition HttpExtractor_extract_with ::
  "url_parser \<Rightarrow> head_env \<Rightarrow> string \<Rightarrow> js_error + ExtractResult" where
  "HttpExtractor_extract_with parse net u =
     (case getFileInfo net u of
        Inl e \<Rightarrow> Inl (HttpExtractFailed (catch_message e))
      | Inr fileInfo \<Rightarrow>
          (case parse u of
             None \<Rightarrow> Inl (HttpExtractFailed (catch_message (Thrown (LibError ''Invalid URL''))))
           | Some urlPath \<Rightarrow>
               (let urlFilename = or_else (pop (split_char CHR ''/'' urlPath)) ''download'';
                    filename_v = or_else (filename fileInfo) urlFilename;
                    extension = getFileExtension_with parse filename_v;
                    fileSize_v = contentLength fileInfo;
                    stream = \<lparr>url = u, format = extension,
                              quality = quality_of_fileSize fileSize_v,
                              fileSize = fileSize_v, codec = None, headers = None\<rparr> in
                Inr \<lparr>title = replace_first (''.'' @ extension) [] filename_v,
                     description = None, duration = None, thumbnail = None,
                     streams = [stream], subtitles = Some [], originalUrl = u\<rparr>)))"

definition HttpExtractor_extract :: "head_env \<Rightarrow> string \<Rightarrow> js_error + ExtractResult" where
  "HttpExtractor_extract net u = HttpExtractor_extract_with URL_pathname net u"

definition HttpExtractor :: "head_env \<Rightarrow> Extractor" where
  "HttpExtractor net =
     \<lparr>name = ''HTTP'', test = HttpExtractor_test, do_extract = HttpExtractor_extract net\<rparr>"

section \<open>Download engine\<close>

text \<open>
  The world outside one call: the regular files that exist, the job-record snapshots
  handed to the progress callback (one per \<open>onProgress?.(progress)\<close>, oldest first), the
  delays awaited with \<open>setTimeout\<close> in milliseconds, and the URLs of the \<open>GET\<close> requests
  issued.
\<close>

record world =
  files :: "string set"
  reports :: "DownloadProgress list"
  sleeps :: "nat list"
  requests :: "string list"

definition onProgress :: "DownloadProgress \<Rightarrow> world \<Rightarrow> world" where
  "onProgress p w = w\<lparr>reports := reports w @ [p]\<rparr>"

text \<open>
  A progress event of the HTTP library: bytes loaded so far, the total when the response
  declares one, and the instantaneous rate when known.
\<close>

record progress_event =
  loaded :: nat
  total :: "nat option"
  rate :: "nat option"

text \<open>
  What the network does with one attempt, that is one iteration of the \<open>while\<close> loop: the
  progress events the library delivers to the handler registered for this request, and how
  the iteration ends. \<open>Throws\<close> is any exception raised inside the \<open>try\<close> before the
  \<open>return\<close> (the request is rejected, or creating the directory or the stream throws);
  \<open>Piped\<close> is a response piped into the write stream, which then emits \<open>finish\<close> or \<open>error\<close>.
  A stream that emits neither leaves the returned promise pending and is not modelled.
\<close>

datatype write_result = Finish | WriteError lib_error

datatype attempt_outcome = Throws lib_error | Piped write_result

record attempt =
  events :: "progress_event list"
  outcome :: attempt_outcome

text \<open>
  \<open>Math.round((loaded / total) * 100)\<close> as the platform computes it: the quotient and the
  product are each rounded to the nearest double, ties to the even mantissa (\<open>fl\<close>), and
  \<open>Math.round\<close> takes the floor of the value plus one half. A positive real \<open>x\<close> lies in
  exactly one binade \<open>2 ^ 52 * 2 ^ e \<le> x < 2 ^ 53 * 2 ^ e\<close>; \<open>expo x\<close> is that \<open>e\<close>, found by
  halving or doubling, and \<open>fl x\<close> rounds \<open>x / 2 ^ e\<close> to an integer mantissa. The exponent is
  not bounded, so \<open>fl\<close> is the rounding of IEEE 754 binary64 wherever that stays in its
  normal range, which it does for byte counts below \<open>2 ^ 53\<close>. For example 29 of 200 gives
  14 (the product is 14.499999999999998), where exact arithmetic would give 15.
\<close>

definition rne :: "real \<Rightarrow> int" where
  "rne x =
     (let f = \<lfloor>x\<rfloor>; r = x - of_int f in
      if r < 1 / 2 then f
      else if 1 / 2 < r then f + 1
      else if even f then f else f + 1)"

function expo_down :: "real \<Rightarrow> int" where
  "expo_down x = (if 2 ^ 53 \<le> x then expo_down (x / 2) + 1 else 0)"
  by pat_completeness auto
termination
proof (relation "measure (\<lambda>x. nat \<lfloor>x\<rfloor>)")
  show "wf (measure (\<lambda>x::real. nat \<lfloor>x\<rfloor>))" by simp
next
  fix x :: real
  assume a: "2 ^ 53 \<le> x"
  then have "x / 2 \<le> x - 1" by simp
  then have "\<lfloor>x / 2\<rfloor> \<le> \<lfloor>x - 1\<rfloor>" by (rule floor_mono)
  then have "\<lfloor>x / 2\<rfloor> < \<lfloor>x\<rfloor>" by simp
  moreover have "0 < \<lfloor>x\<rfloor>" using a by simp
  ultimately show "(x / 2, x) \<in> measure (\<lambda>x. nat \<lfloor>x\<rfloor>)" by simp
qed

function expo_up :: "real \<Rightarrow> int" where
  "expo_up x = (if 0 < x \<and> x < 2 ^ 52 then expo_up (2 * x) - 1 else 0)"
  by pat_completeness auto
termination
proof (relation "measure (\<lambda>x. nat \<lceil>2 ^ 52 / x\<rceil>)")
  show "wf (measure (\<lambda>x::real. nat \<lceil>2 ^ 52 / x\<rceil>))" by simp
next
  fix x :: real
  assume a: "0 < x \<and> x < 2 ^ 52"
  define y where "y = 2 ^ 52 / x"
  have y: "1 < y" using a by (simp add: y_def)
  then have c: "2 \<le> \<lceil>y\<rceil>" by (simp only: le_ceiling_iff)
  have "y / 2 \<le> of_int \<lceil>y\<rceil> / 2" by (simp add: le_of_int_ceiling)
  also have "\<dots> \<le> of_int (\<lceil>y\<rceil> - 1)" using c by simp
  finally have "\<lceil>y / 2\<rceil> \<le> \<lceil>y\<rceil> - 1" by (simp only: ceiling_le_iff)
  then have "nat \<lceil>y / 2\<rceil> < nat \<lceil>y\<rceil>" using c by simp
  moreover have "2 ^ 52 / (2 * x) = y / 2" by (simp add: y_def)
  ultimately have "nat \<lceil>2 ^ 52 / (2 * x)\<rceil> < nat \<lceil>2 ^ 52 / x\<rceil>"
    by (simp only: y_def)
  then show "(2 * x, x) \<in> measure (\<lambda>x. nat \<lceil>2 ^ 52 / x\<rceil>)" by simp
qed

declare expo_down.simps [simp del] expo_up.simps [simp del]

definition expo :: "real \<Rightarrow> int" where
  "expo x = (if 2 ^ 53 \<le> x then expo_down x else expo_up x)"

definition fl :: "real \<Rightarrow> real" where
  "fl x = (if x \<le> 0 then 0 else of_int (rne (x / 2 powi expo x)) * 2 powi expo x)"

definition percent :: "nat \<Rightarrow> nat \<Rightarrow> nat" where
  "percent l t = nat \<lfloor>fl (fl (of_nat l / of_nat t) * 100) + 1 / 2\<rfloor>"

text \<open>
  The \<open>onDownloadProgress\<close> handler: an event without a truthy \<open>total\<close> is ignored; otherwise
  the job record is overwritten from the event alone and handed to the callback.
\<close>

definition onDownloadProgress ::
  "progress_event \<Rightarrow> DownloadProgress \<times> world \<Rightarrow> DownloadProgress \<times> world" where
  "onDownloadProgress progressEvent pw =
     (case pw of (p, w) \<Rightarrow>
        (case total progressEvent of
           None \<Rightarrow> (p, w)
         | Some t \<Rightarrow>
             if t = 0 then (p, w)
             else
               (let p' = p\<lparr>totalBytes := t,
                           downloadedBytes := loaded progressEvent,
                           progress := percent (loaded progressEvent) t,
                           speed := (case rate progressEvent of None \<Rightarrow> 0 | Some r \<Rightarrow> r)\<rparr>
                in (p', onProgress p' w))))"

text \<open>
  The retry loop of \<open>downloadFile\<close>, from the loop variable \<open>attempt\<close> on. A \<open>finish\<close> leaves
  the file at \<open>outputPath\<close> and resolves. A stream \<open>error\<close> removes the file if it exists and
  rejects with that error: the promise is returned without \<open>await\<close>, so the \<open>catch\<close> of the
  loop does not see the rejection. A throw inside the \<open>try\<close> increments \<open>attempt\<close>; then
  either the budget is exhausted and the \<open>Download failed after ...\<close> error is raised, or the
  loop waits \<open>1000 * attempt\<close> ms and goes round again.
\<close>

function downloadFile_loop ::
  "(nat \<Rightarrow> attempt) \<Rightarrow> string \<Rightarrow> string \<Rightarrow> nat \<Rightarrow> nat \<Rightarrow> DownloadProgress \<Rightarrow> world
     \<Rightarrow> (js_error + string) \<times> DownloadProgress \<times> world" where
  "downloadFile_loop net u outputPath_v retries attempt_v p w =
     (if attempt_v < retries then
        (case fold onDownloadProgress (events (net attempt_v))
                (p, w\<lparr>requests := requests w @ [u]\<rparr>) of
           (p1, w1) \<Rightarrow>
             (case outcome (net attempt_v) of
                Piped Finish \<Rightarrow>
                  (Inr outputPath_v, p1, w1\<lparr>files := insert outputPath_v (files w1)\<rparr>)
              | Piped (WriteError e) \<Rightarrow>
                  (Inl (Thrown e), p1, w1\<lparr>files := files w1 - {outputPath_v}\<rparr>)
              | Throws e \<Rightarrow>
                  (if attempt_v + 1 \<ge> retries
                   then (Inl (DownloadFailedAfter retries (catch_message (Thrown e))), p1, w1)
                   else downloadFile_loop net u outputPath_v retries (attempt_v + 1) p1
                          (w1\<lparr>sleeps := sleeps w1 @ [1000 * (attempt_v + 1)]\<rparr>))))
      else (Inl DownloadFailedBare, p, w))"
  by pat_completeness auto
termination
  by (relation "measure (\<lambda>(net, u, outputPath_v, retries, attempt_v, p, w). retries - attempt_v)")
    auto

declare downloadFile_loop.simps [simp del]

text \<open>\<open>downloadFile(url, outputPath, progress, {retries = 3})\<close>.\<close>

definition downloadFile ::
  "(nat \<Rightarrow> attempt) \<Rightarrow> string \<Rightarrow> string \<Rightarrow> DownloadProgress \<Rightarrow> nat option \<Rightarrow> world
     \<Rightarrow> (js_error + string) \<times> DownloadProgress \<times> world" where
  "downloadFile net u outputPath_v p retries_opt w =
     downloadFile_loop net u outputPath_v (case retries_opt of None \<Rightarrow> 3 | Some r \<Rightarrow> r) 0 p w"

section \<open>Orchestrator\<close>

text \<open>\<open>sanitizeFilename\<close>: \<open>filename.replace(/[^a-zA-Z0-9._-]/g, '_')\<close>.\<close>

definition sanitizeFilename :: "string \<Rightarrow> string" where
  "sanitizeFilename s =
     map (\<lambda>c. if is_alpha c \<or> is_digit c \<or> c \<in> set ''._-'' then c else CHR ''_'') s"

definition generateFilename :: "string \<Rightarrow> string \<Rightarrow> string" where
  "generateFilename title_v format_v = sanitizeFilename title_v @ ''.'' @ format_v"

definition isAudioFormat :: "string \<Rightarrow> bool" where
  "isAudioFormat format_v =
     (toLowerCase format_v \<in> set [''mp3'', ''wav'', ''aac'', ''m4a'', ''ogg'', ''flac''])"

text \<open>
  \<open>generateAudioFilename\<close>: the directory part of the path (up to and including the last
  \<open>/\<close>), the base name without its last extension (a leading dot is not an extension), and
  the target format. The normalisation done by \<open>path.join\<close> is not modelled.
\<close>

definition generateAudioFilename :: "string \<Rightarrow> string \<Rightarrow> string" where
  "generateAudioFilename originalPath targetFormat =
     (let dir = rev (dropWhile (\<lambda>c. c \<noteq> CHR ''/'') (rev originalPath));
          base = rev (takeWhile (\<lambda>c. c \<noteq> CHR ''/'') (rev originalPath));
          name_v = (if base \<noteq> [] \<and> CHR ''.'' \<in> set (tl base)
                    then rev (tl (dropWhile (\<lambda>c. c \<noteq> CHR ''.'') (rev base)))
                    else base)
      in dir @ name_v @ ''.'' @ targetFormat)"

text \<open>
  What one call of \<open>download\<close> meets outside the program: the identifier \<open>generateId()\<close>
  returns, the behaviour of the network at each attempt of the engine, the transcoder, and
  whether removing the pre-conversion file succeeds.
\<close>

record env =
  generateId :: string
  attempts :: "nat \<Rightarrow> attempt"
  transcoder :: "ffmpeg_command \<Rightarrow> ffmpeg_outcome"
  unlink_ok :: bool

text \<open>
  The job record is one object shared by the local variable \<open>progress\<close> and the table
  \<open>activeDownloads\<close>; \<open>set_job\<close> writes the current value of the object into the table after
  each mutation.
\<close>

definition set_job :: "MediaDownloader \<Rightarrow> string \<Rightarrow> DownloadProgress \<Rightarrow> MediaDownloader" where
  "set_job md k p = md\<lparr>activeDownloads := (activeDownloads md)(k \<mapsto> p)\<rparr>"

definition delete_job :: "MediaDownloader \<Rightarrow> string \<Rightarrow> MediaDownloader" where
  "delete_job md k = md\<lparr>activeDownloads := (activeDownloads md)(k := None)\<rparr>"

text \<open>
  The \<open>catch\<close> block of \<open>download\<close>: if the table has an entry under the identifier, it is
  marked \<open>error\<close> with the message and reported; the error is re-raised. The entry stays in
  the table.
\<close>

definition download_catch ::
  "string \<Rightarrow> js_error \<Rightarrow> MediaDownloader \<Rightarrow> world
     \<Rightarrow> (js_error + string) \<times> MediaDownloader \<times> world" where
  "download_catch downloadId_v e md w =
     (case activeDownloads md downloadId_v of
        None \<Rightarrow> (Inl e, md, w)
      | Some p \<Rightarrow>
          (let p' = p\<lparr>status := Errored, error := Some (catch_message e)\<rparr>
           in (Inl e, set_job md downloadId_v p', onProgress p' w)))"

definition download ::
  "env \<Rightarrow> MediaDownloader \<Rightarrow> world \<Rightarrow> string \<Rightarrow> DownloadOptions
     \<Rightarrow> (js_error + string) \<times> MediaDownloader \<times> world" where
  "download en md w u options =
     (let downloadId_v = generateId en in
      case md_extract md u of
        Inl e \<Rightarrow> download_catch downloadId_v e md w
      | Inr extractResult \<Rightarrow>
          (let progress0 = \<lparr>downloadId = downloadId_v, p_url = u, p_title = title extractResult,
                            progress = 0, downloadedBytes = 0, totalBytes = 0, speed = 0,
                            status = Pending, error = None\<rparr>;
               md1 = set_job md downloadId_v progress0;
               w1 = onProgress progress0 w
           in case selectBestStream (streams extractResult) options of
                None \<Rightarrow> download_catch downloadId_v NoSuitableStream md1 w1
              | Some selectedStream \<Rightarrow>
                  (let progress1 = progress0\<lparr>status := Downloading\<rparr>;
                       md2 = set_job md1 downloadId_v progress1;
                       w2 = onProgress progress1 w1;
                       filename_v = generateFilename (title extractResult) (format selectedStream);
                       filePath = outputPath options @ ''/'' @ filename_v
                   in case downloadFile (attempts en) (url selectedStream) filePath progress1 None w2 of
                        (Inl e, progress2, w3) \<Rightarrow>
                          download_catch downloadId_v e (set_job md2 downloadId_v progress2) w3
                      | (Inr _, progress2, w3) \<Rightarrow>
                          (let md3 = set_job md2 downloadId_v progress2 in
                           if truthy (o_format options) \<and> isAudioFormat (the (o_format options))
                           then
                             (let audioPath = generateAudioFilename filePath (the (o_format options));
                                  conversionResult =
                                    fst (convertToAudio (transcoder en)
                                      \<lparr>inputPath = filePath, a_outputPath = audioPath,
                                       a_format = the (o_format options),
                                       a_quality = audioQuality options\<rparr>);
                                  w4 = (if success conversionResult
                                        then w3\<lparr>files := insert audioPath (files w3)\<rparr> else w3)
                              in if success conversionResult \<and> truthy (r_outputPath conversionResult)
                                 then
                                   (let w5 = (if unlink_ok en
                                              then w4\<lparr>files := files w4 - {filePath}\<rparr> else w4);
                                        progress3 = progress2\<lparr>status := Completed, progress := 100\<rparr>;
                                        w6 = onProgress progress3 w5
                                    in (Inr (the (r_outputPath conversionResult)),
                                        delete_job (set_job md3 downloadId_v progress3) downloadId_v,
                                        w6))
                                 else download_catch downloadId_v
                                        (AudioConversionFailed (r_error conversionResult)) md3 w4)
                           else
                             (let progress3 = progress2\<lparr>status := Completed, progress := 100\<rparr>;
                                  w4 = onProgress progress3 w3
                              in (Inr filePath,
                                  delete_job (set_job md3 downloadId_v progress3) downloadId_v,
                                  w4))))))"

text \<open>
  For stating the progress property: an event is effective when the handler acts on it;
  \<open>delivered net n\<close> are the effective events of the first \<open>n\<close> attempts in the order of
  delivery; \<open>ratio_le\<close> compares \<open>loaded / total\<close> of two effective events;
  \<open>attempt_percents net k\<close> are the percents the handler computes from the effective events
  of attempt \<open>k\<close>.
\<close>

definition effective :: "progress_event \<Rightarrow> bool" where
  "effective ev = (case total ev of None \<Rightarrow> False | Some t \<Rightarrow> t \<noteq> 0)"

definition delivered :: "(nat \<Rightarrow> attempt) \<Rightarrow> nat \<Rightarrow> progress_event list" where
  "delivered net n = concat (map (\<lambda>k. filter effective (events (net k))) [0..<n])"

definition ratio_le :: "progress_event \<Rightarrow> progress_event \<Rightarrow> bool" where
  "ratio_le e1 e2 = (loaded e1 * the (total e2) \<le> loaded e2 * the (total e1))"

definition attempt_percents :: "(nat \<Rightarrow> attempt) \<Rightarrow> nat \<Rightarrow> nat list" where
  "attempt_percents net k =
     map (\<lambda>e. percent (loaded e) (the (total e))) (filter effective (events (net k)))"

section \<open>Properties\<close>

subsection \<open>Audio conversion: tier to bitrate\<close>

text \<open>
  C8. Given format \<open>mp3\<close> and tier \<open>high\<close>, whatever the transcoder then does, the adapter
  hands it exactly one command, and that command has audio bitrate \<open>320k\<close> and the video
  stream stripped (with codec \<open>libmp3lame\<close> and format \<open>mp3\<close>). For every call the adapter
  makes exactly one invocation, always with the video stripped, and reports success
  exactly when the transcoder ends on that command. The bitrate of the invocation is,
  for mp3, 128k low, 192k medium, 320k high; for aac and m4a, 96k low, 128k medium, 256k
  high; an absent tier counts as medium; and for wav the invocation carries no bitrate
  whatever the tier.
\<close>

theorem audio_bitrate_ladder:
  "snd (convertToAudio run \<lparr>inputPath = i, a_outputPath = out, a_format = ''mp3'',
       a_quality = Some ''high''\<rparr>)
     = [\<lparr>c_input = i, c_noVideo = True, c_audioCodec = Some ''libmp3lame'',
         c_format = Some ''mp3'', c_audioBitrate = Some ''320k'', c_output = Some out\<rparr>]
   \<and> snd (convertToAudio run options) = [ffmpeg_command_of options]
   \<and> map c_noVideo (snd (convertToAudio run options)) = [True]
   \<and> success (fst (convertToAudio run options)) = (run (ffmpeg_command_of options) = Ended)
   \<and> map c_audioBitrate (snd (convertToAudio run \<lparr>inputPath = i, a_outputPath = out,
         a_format = ''mp3'', a_quality = Some ''low''\<rparr>)) = [Some ''128k'']
   \<and> map c_audioBitrate (snd (convertToAudio run \<lparr>inputPath = i, a_outputPath = out,
         a_format = ''mp3'', a_quality = Some ''medium''\<rparr>)) = [Some ''192k'']
   \<and> map c_audioBitrate (snd (convertToAudio run \<lparr>inputPath = i, a_outputPath = out,
         a_format = ''mp3'', a_quality = Some ''high''\<rparr>)) = [Some ''320k'']
   \<and> map c_audioBitrate (snd (convertToAudio run \<lparr>inputPath = i, a_outputPath = out,
         a_format = ''aac'', a_quality = Some ''low''\<rparr>)) = [Some ''96k'']
   \<and> map c_audioBitrate (snd (convertToAudio run \<lparr>inputPath = i, a_outputPath = out,
         a_format = ''aac'', a_quality = Some ''medium''\<rparr>)) = [Some ''128k'']
   \<and> map c_audioBitrate (snd (convertToAudio run \<lparr>inputPath = i, a_outputPath = out,
         a_format = ''aac'', a_quality = Some ''high''\<rparr>)) = [Some ''256k'']
   \<and> map c_audioBitrate (snd (convertToAudio run \<lparr>inputPath = i, a_outputPath = out,
         a_format = ''m4a'', a_quality = Some ''low''\<rparr>)) = [Some ''96k'']
   \<and> map c_audioBitrate (snd (convertToAudio run \<lparr>inputPath = i, a_outputPath = out,
         a_format = ''m4a'', a_quality = Some ''medium''\<rparr>)) = [Some ''128k'']
   \<and> map c_audioBitrate (snd (convertToAudio run \<lparr>inputPath = i, a_outputPath = out,
         a_format = ''m4a'', a_quality = Some ''high''\<rparr>)) = [Some ''256k'']
   \<and> map c_audioBitrate (snd (convertToAudio run \<lparr>inputPath = i, a_outputPath = out,
         a_format = ''mp3'', a_quality = None\<rparr>)) = [Some ''192k'']
   \<and> map c_audioBitrate (snd (convertToAudio run \<lparr>inputPath = i, a_outputPath = out,
         a_format = ''aac'', a_quality = None\<rparr>)) = [Some ''128k'']
   \<and> map c_audioBitrate (snd (convertToAudio run \<lparr>inputPath = i, a_outputPath = out,
         a_format = ''m4a'', a_quality = None\<rparr>)) = [Some ''128k'']
   \<and> map c_audioBitrate (snd (convertToAudio run \<lparr>inputPath = i, a_outputPath = out,
         a_format = ''wav'', a_quality = tier\<rparr>)) = [None]"
proof -
  have inv: "snd (convertToAudio r o') = [ffmpeg_command_of o']" for r o'
    by (simp add: convertToAudio_def Let_def split: ffmpeg_outcome.splits)
  have nv: "c_noVideo (ffmpeg_command_of o')" for o'
    by (simp add: ffmpeg_command_of_def Let_def ffmpeg_input_def cmd_noVideo_def
        cmd_audioCodec_def cmd_format_def cmd_audioBitrate_def cmd_save_def)
  have ok: "success (fst (convertToAudio run options)) = (run (ffmpeg_command_of options) = Ended)"
    by (simp add: convertToAudio_def Let_def split: ffmpeg_outcome.splits)
  have cmd: "ffmpeg_command_of \<lparr>inputPath = i, a_outputPath = out, a_format = ''mp3'',
       a_quality = Some ''high''\<rparr>
     = \<lparr>c_input = i, c_noVideo = True, c_audioCodec = Some ''libmp3lame'',
         c_format = Some ''mp3'', c_audioBitrate = Some ''320k'', c_output = Some out\<rparr>"
    by (simp add: ffmpeg_command_of_def Let_def ffmpeg_input_def cmd_noVideo_def
        cmd_audioCodec_def cmd_format_def cmd_audioBitrate_def cmd_save_def
        getQualitySettings_def getAudioCodec_def truthy_def)
  have br: "c_audioBitrate (ffmpeg_command_of \<lparr>inputPath = i, a_outputPath = out,
         a_format = f, a_quality = q\<rparr>)
      = (if truthy (audioBitrate (getQualitySettings f q))
         then audioBitrate (getQualitySettings f q) else None)" for f q
    by (simp add: ffmpeg_command_of_def Let_def ffmpeg_input_def cmd_noVideo_def
        cmd_audioCodec_def cmd_format_def cmd_audioBitrate_def cmd_save_def truthy_def
        split: option.splits)
  show ?thesis
    unfolding inv cmd
    by (simp add: nv ok[unfolded inv] br getQualitySettings_def truthy_def)
qed

subsection \<open>Registry dispatch\<close>

lemma find_append_first:
  "\<forall>x\<in>set pre. \<not> P x \<Longrightarrow> P e \<Longrightarrow> List.find P (pre @ e # post) = Some e"
  by (induction pre) auto

lemma find_Some_split:
  "List.find P xs = Some e \<Longrightarrow> \<exists>pre post. xs = pre @ e # post \<and> P e \<and> (\<forall>x\<in>set pre. \<not> P x)"
proof (induction xs)
  case Nil
  then show ?case by simp
next
  case (Cons a xs)
  show ?case
  proof (cases "P a")
    case True
    with Cons.prems have "a = e" by simp
    with True have "a # xs = [] @ e # xs \<and> P e \<and> (\<forall>x\<in>set []. \<not> P x)" by simp
    then show ?thesis by blast
  next
    case False
    with Cons.prems have "List.find P xs = Some e" by simp
    then obtain pre post where *: "xs = pre @ e # post" "P e" "\<forall>x\<in>set pre. \<not> P x"
      using Cons.IH by blast
    with False have "a # xs = (a # pre) @ e # post \<and> P e \<and> (\<forall>x\<in>set (a # pre). \<not> P x)"
      by simp
    then show ?thesis by blast
  qed
qed

text \<open>
  C6. Dispatch returns the first registered extractor, in registration order, whose
  \<open>test(url)\<close> holds: the extractor found is exactly the one that splits the registered
  sequence into a prefix with no match, itself, and a rest. With \<open>A\<close> registered before \<open>B\<close>
  and \<open>A\<close> matching, \<open>A\<close> is chosen whatever \<open>B\<close> says. When no registered extractor matches,
  nothing is found and \<open>extract\<close> fails with the no-extractor error for that URL; when one is
  found, \<open>extract\<close> is that extractor's own outcome.
\<close>

theorem dispatch_first_match:
  "(findExtractor md u = Some e \<longleftrightarrow>
      (\<exists>pre post. extractors md = pre @ e # post \<and> test e u \<and> (\<forall>x\<in>set pre. \<not> test x u)))
   \<and> (test A u \<longrightarrow>
        findExtractor (registerExtractor (registerExtractor new_MediaDownloader A) B) u = Some A)
   \<and> ((\<forall>x\<in>set (extractors md). \<not> test x u) \<longrightarrow>
        findExtractor md u = None \<and> md_extract md u = Inl (NoExtractorFound u))
   \<and> (findExtractor md u = Some e \<longrightarrow> md_extract md u = do_extract e u)"
proof -
  have 1: "findExtractor md u = Some e \<longleftrightarrow>
      (\<exists>pre post. extractors md = pre @ e # post \<and> test e u \<and> (\<forall>x\<in>set pre. \<not> test x u))"
    unfolding findExtractor_def
    using find_Some_split[of "\<lambda>x. test x u" "extractors md" e]
      find_append_first[of _ "\<lambda>x. test x u" e]
    by metis
  have 2: "test A u \<longrightarrow>
        findExtractor (registerExtractor (registerExtractor new_MediaDownloader A) B) u = Some A"
    by (simp add: findExtractor_def registerExtractor_def new_MediaDownloader_def)
  have 3: "(\<forall>x\<in>set (extractors md). \<not> test x u) \<longrightarrow>
        findExtractor md u = None \<and> md_extract md u = Inl (NoExtractorFound u)"
  proof
    assume a: "\<forall>x\<in>set (extractors md). \<not> test x u"
    then have "findExtractor md u = None"
      by (simp add: findExtractor_def find_None_iff)
    then show "findExtractor md u = None \<and> md_extract md u = Inl (NoExtractorFound u)"
      by (simp add: md_extract_def)
  qed
  have 4: "findExtractor md u = Some e \<longrightarrow> md_extract md u = do_extract e u"
    by (simp add: md_extract_def)
  from 1 2 3 4 show ?thesis by blast
qed

theorem dispatch_first_match_witness:
  "findExtractor
     (registerExtractor
        (registerExtractor new_MediaDownloader
           \<lparr>name = ''A'', test = (\<lambda>u. True), do_extract = (\<lambda>u. Inl (ExtractionFailed ''a''))\<rparr>)
        \<lparr>name = ''B'', test = (\<lambda>u. True), do_extract = (\<lambda>u. Inl (ExtractionFailed ''b''))\<rparr>)
     ''https://example.com/video.mp4''
   = Some \<lparr>name = ''A'', test = (\<lambda>u. True), do_extract = (\<lambda>u. Inl (ExtractionFailed ''a''))\<rparr>
   \<and> md_extract
       (registerExtractor new_MediaDownloader
          \<lparr>name = ''B'', test = (\<lambda>u. False), do_extract = (\<lambda>u. Inl (ExtractionFailed ''b''))\<rparr>)
       ''https://example.com/video.mp4''
     = Inl (NoExtractorFound ''https://example.com/video.mp4'')"
  using dispatch_first_match
    [of "registerExtractor new_MediaDownloader
          \<lparr>name = ''B'', test = (\<lambda>u. False), do_extract = (\<lambda>u. Inl (ExtractionFailed ''b''))\<rparr>"
        "''https://example.com/video.mp4''"
        "\<lparr>name = ''B'', test = (\<lambda>u. False), do_extract = (\<lambda>u. Inl (ExtractionFailed ''b''))\<rparr>"
        "\<lparr>name = ''A'', test = (\<lambda>u. True), do_extract = (\<lambda>u. Inl (ExtractionFailed ''a''))\<rparr>"
        "\<lparr>name = ''B'', test = (\<lambda>u. True), do_extract = (\<lambda>u. Inl (ExtractionFailed ''b''))\<rparr>"]
  by (simp add: registerExtractor_def new_MediaDownloader_def)

subsection \<open>Stream selection\<close>

lemma find_filter_hd: "filter P xs = y # r \<Longrightarrow> List.find P xs = Some y"
  by (induction xs) (auto split: if_splits)

lemma sort_key_Cons_min:
  assumes "sort_key f xs = y # ys"
  shows "y \<in> set xs" and "\<forall>x\<in>set xs. f y \<le> f x" and "List.find (\<lambda>x. f x = f y) xs = Some y"
proof -
  have s: "set xs = set (y # ys)" using assms set_sort[of f xs] by simp
  then show "y \<in> set xs" by simp
  have "sorted (map f (y # ys))" using assms sorted_sort_key[of f xs] by simp
  then have "\<forall>x\<in>set ys. f y \<le> f x" by simp
  with s show "\<forall>x\<in>set xs. f y \<le> f x" by auto
  have "filter (\<lambda>x. f x = f y) xs = filter (\<lambda>x. f x = f y) (y # ys)"
    using sort_key_stable[of f "f y" xs] assms by simp
  then have "filter (\<lambda>x. f x = f y) xs = y # filter (\<lambda>x. f x = f y) ys" by simp
  then show "List.find (\<lambda>x. f x = f y) xs = Some y" by (rule find_filter_hd)
qed

lemma sort_key_nonempty: "xs \<noteq> [] \<Longrightarrow> sort_key f xs \<noteq> []"
  using length_sort[of f xs] by (metis length_0_conv)

text \<open>
  C5, as the specification states it, ranks \<open>144p\<close> (and the audio ranks) above every
  unrecognized label. The ladder of the code stops at \<open>240p\<close>: \<open>144p\<close> has the same rank 999
  as \<open>unknown\<close>, so with the streams \<open>[unknown, 144p]\<close> and no hint the code keeps the list
  order and chooses the \<open>unknown\<close> stream, which the claimed ladder ranks strictly after the
  \<open>144p\<close> one.
\<close>

theorem selectBestStream_ladder_counterexample:
  "selectBestStream
     [\<lparr>url = ''https://cdn.example/a'', format = ''mp4'', quality = ''unknown'',
        fileSize = None, codec = None, headers = None\<rparr>,
      \<lparr>url = ''https://cdn.example/b'', format = ''mp4'', quality = ''144p'',
        fileSize = None, codec = None, headers = None\<rparr>]
     \<lparr>outputPath = ''downloads'', o_format = None, o_quality = None, audioQuality = None\<rparr>
   = Some \<lparr>url = ''https://cdn.example/a'', format = ''mp4'', quality = ''unknown'',
        fileSize = None, codec = None, headers = None\<rparr>
   \<and> claimed_qualityRank ''144p'' < claimed_qualityRank ''unknown''
   \<and> qualityRank ''144p'' = qualityRank ''unknown''"
  by (simp add: selectBestStream_def truthy_def qualityRank_def qualityOrder_def
      claimed_qualityRank_def claimed_qualityOrder_def)

text \<open>
  C5, amended. For every non-empty stream list and every options value exactly one stream
  is chosen, it is a member of the list, and it is: the first stream whose quality label
  equals the quality hint, when a non-empty quality hint is given and some stream carries
  that label; else the first stream whose format equals the format hint, when a non-empty
  format hint is given and some stream has that format; else a stream of least rank in the
  ladder of the code (2160p, 1440p, 1080p, 720p, 480p, 360p, 240p have ranks 0 to 6, every
  other label, \<open>144p\<close> and the audio ranks included, has rank 999), and among the streams of
  that rank the first in list order.
\<close>

theorem selectBestStream_total:
  assumes "streams_arg \<noteq> []"
  shows "(\<exists>!s. selectBestStream streams_arg options = Some s)
   \<and> (\<exists>s. selectBestStream streams_arg options = Some s \<and> s \<in> set streams_arg \<and>
     (if truthy (o_quality options) \<and> (\<exists>x\<in>set streams_arg. Some (quality x) = o_quality options)
      then List.find (\<lambda>x. Some (quality x) = o_quality options) streams_arg = Some s
      else if truthy (o_format options) \<and> (\<exists>x\<in>set streams_arg. Some (format x) = o_format options)
      then List.find (\<lambda>x. Some (format x) = o_format options) streams_arg = Some s
      else (\<forall>x\<in>set streams_arg. qualityRank (quality s) \<le> qualityRank (quality x))
         \<and> List.find (\<lambda>x. qualityRank (quality x) = qualityRank (quality s)) streams_arg = Some s))
   \<and> map qualityRank qualityOrder = [0, 1, 2, 3, 4, 5, 6]
   \<and> (q \<notin> set qualityOrder \<longrightarrow> qualityRank q = 999)"
proof -
  let ?Q = "\<lambda>x. Some (quality x) = o_quality options"
  let ?F = "\<lambda>x. Some (format x) = o_format options"
  let ?r = "\<lambda>x. qualityRank (quality x)"
  have main: "\<exists>s. selectBestStream streams_arg options = Some s \<and> s \<in> set streams_arg \<and>
     (if truthy (o_quality options) \<and> (\<exists>x\<in>set streams_arg. ?Q x)
      then List.find ?Q streams_arg = Some s
      else if truthy (o_format options) \<and> (\<exists>x\<in>set streams_arg. ?F x)
      then List.find ?F streams_arg = Some s
      else (\<forall>x\<in>set streams_arg. ?r s \<le> ?r x)
         \<and> List.find (\<lambda>x. ?r x = ?r s) streams_arg = Some s)"
  proof (cases "truthy (o_quality options) \<and> (\<exists>x\<in>set streams_arg. ?Q x)")
    case True
    then obtain s where s: "List.find ?Q streams_arg = Some s"
      using find_None_iff[of ?Q streams_arg] by fastforce
    then have "s \<in> set streams_arg" using find_Some_split[OF s] by auto
    moreover have "selectBestStream streams_arg options = Some s"
      using True s by (simp add: selectBestStream_def)
    ultimately show ?thesis using True s by auto
  next
    case noq: False
    then have q: "(if truthy (o_quality options) then List.find ?Q streams_arg else None) = None"
      by (auto simp: find_None_iff)
    show ?thesis
    proof (cases "truthy (o_format options) \<and> (\<exists>x\<in>set streams_arg. ?F x)")
      case True
      then obtain s where s: "List.find ?F streams_arg = Some s"
        using find_None_iff[of ?F streams_arg] by fastforce
      then have "s \<in> set streams_arg" using find_Some_split[OF s] by auto
      moreover have "selectBestStream streams_arg options = Some s"
        using True s by (simp add: selectBestStream_def q)
      ultimately show ?thesis using True noq s by auto
    next
      case nof: False
      then have f: "(if truthy (o_format options) then List.find ?F streams_arg else None) = None"
        by (auto simp: find_None_iff)
      obtain y ys where y: "sort_key ?r streams_arg = y # ys"
        using sort_key_nonempty[OF assms, of ?r] by (cases "sort_key ?r streams_arg") auto
      have "selectBestStream streams_arg options = Some y"
        by (simp add: selectBestStream_def q f y)
      with sort_key_Cons_min[OF y] noq nof show ?thesis by auto
    qed
  qed
  then have uniq: "\<exists>!s. selectBestStream streams_arg options = Some s" by auto
  have ranks: "map qualityRank qualityOrder = [0, 1, 2, 3, 4, 5, 6]"
    by (simp add: qualityRank_def qualityOrder_def)
  have other: "q \<notin> set qualityOrder \<longrightarrow> qualityRank q = 999"
    by (simp add: qualityRank_def qualityOrder_def)
  from main uniq ranks other show ?thesis by blast
qed

text \<open>
  The scenario of the specification: the quality hint \<open>480p\<close> on the streams
  \<open>[1080p, 720p, 480p, 360p]\<close> selects the \<open>480p\<close> stream.
\<close>

theorem selectBestStream_total_witness:
  "[\<lparr>url = ''u1'', format = ''mp4'', quality = ''1080p'', fileSize = None, codec = None, headers = None\<rparr>,
    \<lparr>url = ''u2'', format = ''mp4'', quality = ''720p'', fileSize = None, codec = None, headers = None\<rparr>,
    \<lparr>url = ''u3'', format = ''mp4'', quality = ''480p'', fileSize = None, codec = None, headers = None\<rparr>,
    \<lparr>url = ''u4'', format = ''mp4'', quality = ''360p'', fileSize = None, codec = None, headers = None\<rparr>]
     \<noteq> []
   \<and> selectBestStream
     [\<lparr>url = ''u1'', format = ''mp4'', quality = ''1080p'', fileSize = None, codec = None, headers = None\<rparr>,
      \<lparr>url = ''u2'', format = ''mp4'', quality = ''720p'', fileSize = None, codec = None, headers = None\<rparr>,
      \<lparr>url = ''u3'', format = ''mp4'', quality = ''480p'', fileSize = None, codec = None, headers = None\<rparr>,
      \<lparr>url = ''u4'', format = ''mp4'', quality = ''360p'', fileSize = None, codec = None, headers = None\<rparr>]
     \<lparr>outputPath = ''downloads'', o_format = None, o_quality = Some ''480p'', audioQuality = None\<rparr>
   = Some \<lparr>url = ''u3'', format = ''mp4'', quality = ''480p'', fileSize = None, codec = None, headers = None\<rparr>"
  using selectBestStream_total
    [of "[\<lparr>url = ''u1'', format = ''mp4'', quality = ''1080p'', fileSize = None, codec = None, headers = None\<rparr>,
      \<lparr>url = ''u2'', format = ''mp4'', quality = ''720p'', fileSize = None, codec = None, headers = None\<rparr>,
      \<lparr>url = ''u3'', format = ''mp4'', quality = ''480p'', fileSize = None, codec = None, headers = None\<rparr>,
      \<lparr>url = ''u4'', format = ''mp4'', quality = ''360p'', fileSize = None, codec = None, headers = None\<rparr>]"
     "\<lparr>outputPath = ''downloads'', o_format = None, o_quality = Some ''480p'', audioQuality = None\<rparr>"]
  by (auto simp: truthy_def)

subsection \<open>Generic-file extractor\<close>


lemma scenario_url_pathname:
  "URL_pathname ''https://example.com/video.mp4'' = Some ''/video.mp4''"
  by code_simp

lemma scenario_url_filename:
  "or_else (pop (split_char CHR ''/'' ''/video.mp4'')) ''download'' = ''video.mp4''"
  by code_simp

lemma scenario_extension: "getFileExtension_with URL_pathname ''video.mp4'' = ''mp4''"
  by code_simp

lemma scenario_title: "replace_first ''.mp4'' [] ''video.mp4'' = ''video''"
  by code_simp

lemma scenario_size: "parseInt ''75000000'' = Some 75000000"
  by code_simp

lemma or_else_None: "or_else None d = d"
  by (simp add: or_else_def truthy_def)

text \<open>
  C7. Given \<open>https://example.com/video.mp4\<close> and a probe whose headers report
  \<open>Content-Length: 75000000\<close> (and no file name hint in \<open>Content-Disposition\<close>, the other
  headers being arbitrary), \<open>extract\<close> returns a result with exactly one stream, of quality
  \<open>720p\<close> and format \<open>mp4\<close>. The buckets, for a size that is a positive number of bytes:
  above 100 MiB \<open>1080p\<close>, above 50 MiB \<open>720p\<close>, above 20 MiB \<open>480p\<close>, else \<open>360p\<close>.
\<close>

theorem generic_file_scenario:
  assumes "net ''https://example.com/video.mp4'' = Inr hs"
    and "map_of hs ''content-length'' = Some ''75000000''"
    and "map_of hs ''content-disposition'' = None"
  shows "HttpExtractor_extract net ''https://example.com/video.mp4'' =
     Inr \<lparr>title = ''video'', description = None, duration = None, thumbnail = None,
          streams = [\<lparr>url = ''https://example.com/video.mp4'', format = ''mp4'',
                      quality = ''720p'', fileSize = Some (Some 75000000),
                      codec = None, headers = None\<rparr>],
          subtitles = Some [], originalUrl = ''https://example.com/video.mp4''\<rparr>
   \<and> (0 < n \<longrightarrow> quality_of_fileSize (Some (Some n)) =
         (if n > 104857600 then ''1080p'' else if n > 52428800 then ''720p''
          else if n > 20971520 then ''480p'' else ''360p''))"
proof -
  have fi: "getFileInfo net ''https://example.com/video.mp4'' =
      Inr \<lparr>contentLength = Some (Some 75000000), contentType = map_of hs ''content-type'',
           filename = None\<rparr>"
    using assms by (simp add: getFileInfo_def head_def truthy_def scenario_size)
  have q: "quality_of_fileSize (Some (Some 75000000)) = ''720p''"
    by (simp add: quality_of_fileSize_def)
  have "HttpExtractor_extract net ''https://example.com/video.mp4'' =
     Inr \<lparr>title = ''video'', description = None, duration = None, thumbnail = None,
          streams = [\<lparr>url = ''https://example.com/video.mp4'', format = ''mp4'',
                      quality = ''720p'', fileSize = Some (Some 75000000),
                      codec = None, headers = None\<rparr>],
          subtitles = Some [], originalUrl = ''https://example.com/video.mp4''\<rparr>"
    unfolding HttpExtractor_extract_def HttpExtractor_extract_with_def fi
    by (simp add: Let_def scenario_url_pathname scenario_url_filename or_else_None
        scenario_extension scenario_title q del: replace_first.simps split_char.simps)
  moreover have "0 < n \<longrightarrow> quality_of_fileSize (Some (Some n)) =
         (if n > 104857600 then ''1080p'' else if n > 52428800 then ''720p''
          else if n > 20971520 then ''480p'' else ''360p'')"
    by (simp add: quality_of_fileSize_def)
  ultimately show ?thesis by simp
qed

theorem generic_file_scenario_witness:
  "HttpExtractor_extract
     (\<lambda>u. Inr [(''content-type'', ''video/mp4''), (''content-length'', ''75000000'')])
     ''https://example.com/video.mp4'' =
     Inr \<lparr>title = ''video'', description = None, duration = None, thumbnail = None,
          streams = [\<lparr>url = ''https://example.com/video.mp4'', format = ''mp4'',
                      quality = ''720p'', fileSize = Some (Some 75000000),
                      codec = None, headers = None\<rparr>],
          subtitles = Some [], originalUrl = ''https://example.com/video.mp4''\<rparr>
   \<and> quality_of_fileSize (Some (Some 120000000)) = ''1080p''"
  using generic_file_scenario
    [of "\<lambda>u. Inr [(''content-type'', ''video/mp4''), (''content-length'', ''75000000'')]"
        "[(''content-type'', ''video/mp4''), (''content-length'', ''75000000'')]" 120000000]
  by simp

text \<open>
  C9. Whatever the platform's URL parser is, for every URL the generic-file extractor
  accepts (\<open>test\<close> is true), when the probe answers without a \<open>Content-Length\<close> header,
  \<open>extract\<close> succeeds with exactly one stream, whose quality is \<open>unknown\<close> and whose size is
  absent; and the label \<open>360p\<close> is only ever inferred from a size that is a number.
\<close>

theorem generic_file_no_content_length:
  assumes "HttpExtractor_test_with parse u"
    and "net u = Inr hs"
    and "map_of hs ''content-length'' = None"
  shows "(\<exists>r s. HttpExtractor_extract_with parse net u = Inr r \<and> streams r = [s]
           \<and> quality s = ''unknown'' \<and> fileSize s = None \<and> url s = u)
   \<and> (quality_of_fileSize fs = ''360p'' \<longrightarrow> (\<exists>n. fs = Some (Some n) \<and> n \<noteq> 0))"
proof -
  obtain pathname where pn: "parse u = Some pathname"
    using assms(1) by (auto simp: HttpExtractor_test_with_def split: option.splits)
  obtain fi where fi: "getFileInfo net u = Inr fi" "contentLength fi = None"
    using assms(2,3) by (simp add: getFileInfo_def head_def truthy_def Let_def)
  have "\<exists>r s. HttpExtractor_extract_with parse net u = Inr r \<and> streams r = [s]
           \<and> quality s = ''unknown'' \<and> fileSize s = None \<and> url s = u"
    unfolding HttpExtractor_extract_with_def
    by (simp add: fi pn Let_def quality_of_fileSize_def)
  moreover have "quality_of_fileSize fs = ''360p'' \<longrightarrow> (\<exists>n. fs = Some (Some n) \<and> n \<noteq> 0)"
    by (auto simp: quality_of_fileSize_def split: option.splits if_splits)
  ultimately show ?thesis by blast
qed

theorem generic_file_no_content_length_witness:
  "HttpExtractor_test_with URL_pathname ''https://example.com/video.mp4''
   \<and> (\<exists>r s. HttpExtractor_extract_with URL_pathname
            (\<lambda>u. Inr [(''content-type'', ''video/mp4'')])
            ''https://example.com/video.mp4'' = Inr r \<and> streams r = [s]
           \<and> quality s = ''unknown'' \<and> fileSize s = None \<and> url s = ''https://example.com/video.mp4'')"
proof -
  have t: "HttpExtractor_test_with URL_pathname ''https://example.com/video.mp4''" by code_simp
  show ?thesis
    using t generic_file_no_content_length
      [OF t, of "\<lambda>u. Inr [(''content-type'', ''video/mp4'')]" "[(''content-type'', ''video/mp4'')]"]
    by simp
qed

subsection \<open>Download engine: retries and partial files\<close>



lemma fold_onDownloadProgress_world:
  "fold onDownloadProgress evs (p, w) = (p', w') \<Longrightarrow>
     files w' = files w \<and> sleeps w' = sleeps w \<and> requests w' = requests w \<and> status p' = status p"
proof (induction evs arbitrary: p w)
  case Nil
  then show ?case by simp
next
  case (Cons ev evs)
  obtain p1 w1 where s: "onDownloadProgress ev (p, w) = (p1, w1)"
    by (cases "onDownloadProgress ev (p, w)")
  then have "files w1 = files w \<and> sleeps w1 = sleeps w \<and> requests w1 = requests w
      \<and> status p1 = status p"
    by (auto simp: onDownloadProgress_def onProgress_def Let_def split: option.splits if_splits)
  moreover have "fold onDownloadProgress evs (p1, w1) = (p', w')"
    using Cons.prems s by simp
  ultimately show ?case using Cons.IH by metis
qed

lemma loop_all_throw:
  assumes "a < n" and "\<And>k. a \<le> k \<Longrightarrow> k < n \<Longrightarrow> \<exists>e. outcome (net k) = Throws e"
  shows "\<exists>e p' w'. outcome (net (n - 1)) = Throws e
     \<and> downloadFile_loop net u out n a p w =
         (Inl (DownloadFailedAfter n (catch_message (Thrown e))), p', w')
     \<and> files w' = files w
     \<and> requests w' = requests w @ replicate (n - a) u
     \<and> sleeps w' = sleeps w @ map (\<lambda>k. 1000 * k) [a + 1..<n]"
  using assms
proof (induction "n - a" arbitrary: a p w)
  case 0
  then show ?case by simp
next
  case (Suc d)
  obtain e where e: "outcome (net a) = Throws e" using Suc.prems by blast
  obtain p1 w1 where f: "fold onDownloadProgress (events (net a)) (p, w\<lparr>requests := requests w @ [u]\<rparr>) = (p1, w1)"
    by (cases "fold onDownloadProgress (events (net a)) (p, w\<lparr>requests := requests w @ [u]\<rparr>)")
  from fold_onDownloadProgress_world[OF f]
  have w1: "files w1 = files w" "sleeps w1 = sleeps w" "requests w1 = requests w @ [u]" by simp_all
  show ?case
  proof (cases "a + 1 \<ge> n")
    case True
    with Suc.prems(1) have an: "a = n - 1" "n - a = 1" by simp_all
    have "downloadFile_loop net u out n a p w =
         (Inl (DownloadFailedAfter n (catch_message (Thrown e))), p1, w1)"
      using Suc.prems(1) True by (subst downloadFile_loop.simps) (simp add: f e)
    moreover have "[a + 1..<n] = []" using True by simp
    ultimately show ?thesis using e an w1 by auto
  next
    case False
    let ?w2 = "w1\<lparr>sleeps := sleeps w1 @ [1000 * (a + 1)]\<rparr>"
    have step: "downloadFile_loop net u out n a p w = downloadFile_loop net u out n (a + 1) p1 ?w2"
      using Suc.prems(1) False by (subst downloadFile_loop.simps) (simp add: f e)
    have d: "d = n - (a + 1)" using Suc.hyps(2) by simp
    have lt: "a + 1 < n" using False by simp
    have th: "\<And>k. a + 1 \<le> k \<Longrightarrow> k < n \<Longrightarrow> \<exists>e. outcome (net k) = Throws e"
      using Suc.prems(2) by simp
    from Suc.hyps(1)[OF d lt th, of p1 ?w2]
    obtain e' p' w' where r: "outcome (net (n - 1)) = Throws e'"
      "downloadFile_loop net u out n (a + 1) p1 ?w2 =
         (Inl (DownloadFailedAfter n (catch_message (Thrown e'))), p', w')"
      "files w' = files ?w2" "requests w' = requests ?w2 @ replicate (n - (a + 1)) u"
      "sleeps w' = sleeps ?w2 @ map (\<lambda>k. 1000 * k) [a + 1 + 1..<n]"
      by blast
    have na: "replicate (n - a) u = u # replicate (n - (a + 1)) u"
    proof -
      have "n - a = Suc (n - (a + 1))" using lt by simp
      then show ?thesis by (simp only: replicate.simps)
    qed
    have "requests w' = requests w @ replicate (n - a) u"
      using r(4) w1 by (simp only: na) simp
    moreover have "sleeps w' = sleeps w @ map (\<lambda>k. 1000 * k) [a + 1..<n]"
      using r(5) w1 lt by (simp add: upt_conv_Cons)
    moreover have "files w' = files w" using r(3) w1 by simp
    ultimately show ?thesis using r(1,2) step by auto
  qed
qed


lemma loop_write_error:
  assumes "a \<le> b" and "b < n"
    and "\<And>k. a \<le> k \<Longrightarrow> k < b \<Longrightarrow> \<exists>e. outcome (net k) = Throws e"
    and "outcome (net b) = Piped (WriteError e)"
  shows "\<exists>p' w'. downloadFile_loop net u out n a p w = (Inl (Thrown e), p', w')
     \<and> files w' = files w - {out}
     \<and> requests w' = requests w @ replicate (b - a + 1) u
     \<and> sleeps w' = sleeps w @ map (\<lambda>k. 1000 * k) [a + 1..<b + 1]"
  using assms
proof (induction "b - a" arbitrary: a p w)
  case 0
  then have ab: "a = b" by simp
  obtain p1 w1 where f: "fold onDownloadProgress (events (net a)) (p, w\<lparr>requests := requests w @ [u]\<rparr>) = (p1, w1)"
    by (cases "fold onDownloadProgress (events (net a)) (p, w\<lparr>requests := requests w @ [u]\<rparr>)")
  from fold_onDownloadProgress_world[OF f]
  have w1: "files w1 = files w" "sleeps w1 = sleeps w" "requests w1 = requests w @ [u]" by simp_all
  have "a < n" "outcome (net a) = Piped (WriteError e)"
    using "0.prems"(2,4) ab by simp_all
  then have "downloadFile_loop net u out n a p w = (Inl (Thrown e), p1, w1\<lparr>files := files w1 - {out}\<rparr>)"
    by (subst downloadFile_loop.simps) (simp add: f)
  then show ?case using w1 ab by simp
next
  case (Suc d)
  then have lt: "a < b" by simp
  obtain e0 where e0: "outcome (net a) = Throws e0" using Suc.prems(3)[of a] lt by auto
  obtain p1 w1 where f: "fold onDownloadProgress (events (net a)) (p, w\<lparr>requests := requests w @ [u]\<rparr>) = (p1, w1)"
    by (cases "fold onDownloadProgress (events (net a)) (p, w\<lparr>requests := requests w @ [u]\<rparr>)")
  from fold_onDownloadProgress_world[OF f]
  have w1: "files w1 = files w" "sleeps w1 = sleeps w" "requests w1 = requests w @ [u]" by simp_all
  let ?w2 = "w1\<lparr>sleeps := sleeps w1 @ [1000 * (a + 1)]\<rparr>"
  have step: "downloadFile_loop net u out n a p w = downloadFile_loop net u out n (a + 1) p1 ?w2"
    using lt Suc.prems(2) by (subst downloadFile_loop.simps) (simp add: f e0)
  have d: "d = b - (a + 1)" using Suc.hyps(2) by simp
  have le: "a + 1 \<le> b" using lt by simp
  have th: "\<And>k. a + 1 \<le> k \<Longrightarrow> k < b \<Longrightarrow> \<exists>e. outcome (net k) = Throws e"
    using Suc.prems(3) by simp
  from Suc.hyps(1)[OF d le Suc.prems(2) th Suc.prems(4), of p1 ?w2]
  obtain p' w' where r: "downloadFile_loop net u out n (a + 1) p1 ?w2 = (Inl (Thrown e), p', w')"
    "files w' = files ?w2 - {out}" "requests w' = requests ?w2 @ replicate (b - (a + 1) + 1) u"
    "sleeps w' = sleeps ?w2 @ map (\<lambda>k. 1000 * k) [a + 1 + 1..<b + 1]"
    by blast
  have na: "replicate (b - a + 1) u = u # replicate (b - (a + 1) + 1) u"
  proof -
    have "b - a + 1 = Suc (b - (a + 1) + 1)" using lt by simp
    then show ?thesis by (simp only: replicate.simps)
  qed
  have "requests w' = requests w @ replicate (b - a + 1) u"
    using r(3) w1 by (simp only: na) simp
  moreover have "sleeps w' = sleeps w @ map (\<lambda>k. 1000 * k) [a + 1..<b + 1]"
    using r(4) w1 lt by (simp add: upt_conv_Cons)
  moreover have "files w' = files w - {out}" using r(2) w1 by simp
  ultimately show ?case using r(1) step by auto
qed

lemma loop_DownloadFailed_files:
  "downloadFile_loop net u out n a p w = (Inl (DownloadFailedAfter m msg), p', w')
     \<Longrightarrow> files w' = files w \<and> a < n \<and> m = n"
proof (induction "n - a" arbitrary: a p w)
  case 0
  then have "\<not> a < n" by simp
  with "0.prems" show ?case by (subst (asm) downloadFile_loop.simps) simp
next
  case (Suc d)
  then have lt: "a < n" by simp
  obtain p1 w1 where f: "fold onDownloadProgress (events (net a)) (p, w\<lparr>requests := requests w @ [u]\<rparr>) = (p1, w1)"
    by (cases "fold onDownloadProgress (events (net a)) (p, w\<lparr>requests := requests w @ [u]\<rparr>)")
  from fold_onDownloadProgress_world[OF f]
  have w1: "files w1 = files w" "sleeps w1 = sleeps w" "requests w1 = requests w @ [u]" by simp_all
  show ?case
  proof (cases "outcome (net a)")
    case (Piped r)
    with Suc.prems lt f show ?thesis
      by (subst (asm) downloadFile_loop.simps) (cases r; simp)
  next
    case (Throws e0)
    show ?thesis
    proof (cases "a + 1 \<ge> n")
      case True
      with Suc.prems lt f Throws have "w' = w1" "m = n"
        by (subst (asm) downloadFile_loop.simps; simp)+
      with w1 lt True show ?thesis by simp
    next
      case False
      let ?w2 = "w1\<lparr>sleeps := sleeps w1 @ [1000 * (a + 1)]\<rparr>"
      have "downloadFile_loop net u out n (a + 1) p1 ?w2 = (Inl (DownloadFailedAfter m msg), p', w')"
        using Suc.prems lt f Throws False by (subst (asm) downloadFile_loop.simps) simp
      moreover have "d = n - (a + 1)" using Suc.hyps(2) by simp
      ultimately have "files w' = files ?w2 \<and> m = n"
        using Suc.hyps(1) by blast
      with w1 lt show ?thesis by auto
    qed
  qed
qed


text \<open>
  C3. When every attempt fails, a call with a retry budget of \<open>n > 0\<close> (3 in the claim, which
  is also the default) issues exactly \<open>n\<close> requests, waits \<open>1000 * k\<close> ms after the \<open>k\<close>-th
  failed attempt for \<open>k = 1, ..., n - 1\<close>, and raises the \<open>Download failed after n attempts\<close>
  error carrying \<open>n\<close> and the message of the last failure.
\<close>

theorem retry_policy:
  assumes "0 < n" and "\<forall>k<n. \<exists>e. outcome (net k) = Throws e"
  shows "(\<exists>e p' w'. outcome (net (n - 1)) = Throws e
     \<and> downloadFile net u out p (Some n) w =
         (Inl (DownloadFailedAfter n (catch_message (Thrown e))), p', w')
     \<and> requests w' = requests w @ replicate n u
     \<and> sleeps w' = sleeps w @ map (\<lambda>k. 1000 * k) [1..<n])
   \<and> downloadFile net u out p None w = downloadFile net u out p (Some 3) w"
proof -
  have "\<exists>e p' w'. outcome (net (n - 1)) = Throws e
     \<and> downloadFile_loop net u out n 0 p w =
         (Inl (DownloadFailedAfter n (catch_message (Thrown e))), p', w')
     \<and> files w' = files w
     \<and> requests w' = requests w @ replicate (n - 0) u
     \<and> sleeps w' = sleeps w @ map (\<lambda>k. 1000 * k) [0 + 1..<n]"
    using assms by (intro loop_all_throw) simp_all
  then show ?thesis by (auto simp: downloadFile_def)
qed

theorem retry_policy_witness:
  "(0::nat) < 3
   \<and> (\<exists>p' w'. downloadFile (\<lambda>k. \<lparr>events = [], outcome = Throws (LibError ''socket hang up'')\<rparr>)
         ''https://example.com/video.mp4'' ''downloads/video.mp4''
         \<lparr>downloadId = ''job'', p_url = ''https://example.com/video.mp4'', p_title = ''video'',
           progress = 0, downloadedBytes = 0, totalBytes = 0, speed = 0,
           status = Downloading, error = None\<rparr>
         (Some 3)
         \<lparr>files = {}, reports = [], sleeps = [], requests = []\<rparr> =
         (Inl (DownloadFailedAfter 3 ''socket hang up''), p', w')
       \<and> requests w' = [''https://example.com/video.mp4'', ''https://example.com/video.mp4'',
                         ''https://example.com/video.mp4'']
       \<and> sleeps w' = [1000, 2000])"
  using retry_policy[of 3 "\<lambda>k. \<lparr>events = [], outcome = Throws (LibError ''socket hang up'')\<rparr>"
      "''https://example.com/video.mp4''" "''downloads/video.mp4''"
      "\<lparr>downloadId = ''job'', p_url = ''https://example.com/video.mp4'', p_title = ''video'',
           progress = 0, downloadedBytes = 0, totalBytes = 0, speed = 0,
           status = Downloading, error = None\<rparr>"
      "\<lparr>files = {}, reports = [], sleeps = [], requests = []\<rparr>"]
  by (simp add: catch_message_def numeral_3_eq_3 upt_rec)

text \<open>
  C4, as stated, leaves no file at the destination after the \<open>Download failed after ...\<close>
  error. The failing attempts never open a write stream, and nothing in the loop removes a
  file that was there before the call. Here a file from an earlier download is at the
  destination and the three attempts fail: the call raises the error and the file is still
  there.
\<close>

theorem existing_file_survives_DownloadFailed:
  "downloadFile (\<lambda>k. \<lparr>events = [], outcome = Throws (LibError ''socket hang up'')\<rparr>)
         ''https://example.com/video.mp4'' ''downloads/video.mp4''
         \<lparr>downloadId = ''job'', p_url = ''https://example.com/video.mp4'', p_title = ''video'',
           progress = 0, downloadedBytes = 0, totalBytes = 0, speed = 0,
           status = Downloading, error = None\<rparr>
         (Some 3)
         \<lparr>files = {''downloads/video.mp4''}, reports = [], sleeps = [], requests = []\<rparr> =
     (Inl (DownloadFailedAfter 3 ''socket hang up''),
      \<lparr>downloadId = ''job'', p_url = ''https://example.com/video.mp4'', p_title = ''video'',
           progress = 0, downloadedBytes = 0, totalBytes = 0, speed = 0,
           status = Downloading, error = None\<rparr>,
      \<lparr>files = {''downloads/video.mp4''}, reports = [], sleeps = [1000, 2000],
       requests = [''https://example.com/video.mp4'', ''https://example.com/video.mp4'',
                   ''https://example.com/video.mp4'']\<rparr>)
   \<and> ''downloads/video.mp4'' \<in> files
        \<lparr>files = {''downloads/video.mp4''}, reports = [], sleeps = [1000, 2000],
         requests = [''https://example.com/video.mp4'', ''https://example.com/video.mp4'',
                   ''https://example.com/video.mp4'']\<rparr>"
  by (simp add: downloadFile_def downloadFile_loop.simps catch_message_def)

text \<open>
  C4, amended. A call that ends with the \<open>Download failed after ...\<close> error has created no
  file and removed none: the set of files is exactly as before the call. So afterwards a
  file exists at the destination only if one was already there before the call; no partial
  file of this call is left.
\<close>

theorem no_file_after_DownloadFailed:
  assumes "downloadFile net u out p r w = (Inl (DownloadFailedAfter m msg), p', w')"
  shows "files w' = files w \<and> (out \<notin> files w \<longrightarrow> out \<notin> files w')
         \<and> (out \<in> files w' \<longrightarrow> out \<in> files w)"
  using loop_DownloadFailed_files[of net u out _ 0 p w m msg p' w'] assms
  by (simp add: downloadFile_def)

theorem no_file_after_DownloadFailed_witness:
  "downloadFile (\<lambda>k. \<lparr>events = [], outcome = Throws (LibError ''socket hang up'')\<rparr>)
         ''https://example.com/video.mp4'' ''downloads/video.mp4''
         \<lparr>downloadId = ''job'', p_url = ''https://example.com/video.mp4'', p_title = ''video'',
           progress = 0, downloadedBytes = 0, totalBytes = 0, speed = 0,
           status = Downloading, error = None\<rparr>
         (Some 3)
         \<lparr>files = {}, reports = [], sleeps = [], requests = []\<rparr> =
     (Inl (DownloadFailedAfter 3 ''socket hang up''),
      \<lparr>downloadId = ''job'', p_url = ''https://example.com/video.mp4'', p_title = ''video'',
           progress = 0, downloadedBytes = 0, totalBytes = 0, speed = 0,
           status = Downloading, error = None\<rparr>,
      \<lparr>files = {}, reports = [], sleeps = [1000, 2000],
       requests = [''https://example.com/video.mp4'', ''https://example.com/video.mp4'',
                   ''https://example.com/video.mp4'']\<rparr>)
   \<and> ''downloads/video.mp4'' \<notin> files
        \<lparr>files = {}, reports = [], sleeps = [1000, 2000],
         requests = [''https://example.com/video.mp4'', ''https://example.com/video.mp4'',
                   ''https://example.com/video.mp4'']\<rparr>"
proof -
  have run: "downloadFile (\<lambda>k. \<lparr>events = [], outcome = Throws (LibError ''socket hang up'')\<rparr>)
         ''https://example.com/video.mp4'' ''downloads/video.mp4''
         \<lparr>downloadId = ''job'', p_url = ''https://example.com/video.mp4'', p_title = ''video'',
           progress = 0, downloadedBytes = 0, totalBytes = 0, speed = 0,
           status = Downloading, error = None\<rparr>
         (Some 3)
         \<lparr>files = {}, reports = [], sleeps = [], requests = []\<rparr> =
     (Inl (DownloadFailedAfter 3 ''socket hang up''),
      \<lparr>downloadId = ''job'', p_url = ''https://example.com/video.mp4'', p_title = ''video'',
           progress = 0, downloadedBytes = 0, totalBytes = 0, speed = 0,
           status = Downloading, error = None\<rparr>,
      \<lparr>files = {}, reports = [], sleeps = [1000, 2000],
       requests = [''https://example.com/video.mp4'', ''https://example.com/video.mp4'',
                   ''https://example.com/video.mp4'']\<rparr>)"
    by (simp add: downloadFile_def downloadFile_loop.simps catch_message_def)
  from no_file_after_DownloadFailed[OF run] run show ?thesis by simp
qed

text \<open>
  C10. If the attempts before attempt \<open>b\<close> fail and the request of attempt \<open>b\<close> succeeds but
  its write stream then fails with an error \<open>e\<close>, then whatever the retry budget \<open>n > b\<close>:
  the call rejects with \<open>e\<close> itself, which is not the \<open>Download failed after ...\<close> error; no
  file is left at the destination; and no request and no wait follow the failing attempt
  (exactly \<open>b + 1\<close> requests were issued, and the waits are those after the \<open>b\<close> failed
  attempts).
\<close>

theorem write_stream_failure_not_retried:
  assumes "b < n" and "\<forall>k<b. \<exists>e'. outcome (net k) = Throws e'"
    and "outcome (net b) = Piped (WriteError e)"
  shows "\<exists>p' w'. downloadFile net u out p (Some n) w = (Inl (Thrown e), p', w')
     \<and> out \<notin> files w'
     \<and> requests w' = requests w @ replicate (b + 1) u
     \<and> sleeps w' = sleeps w @ map (\<lambda>k. 1000 * k) [1..<b + 1]
     \<and> (\<forall>m msg. Thrown e \<noteq> DownloadFailedAfter m msg)"
proof -
  have "\<And>k. 0 \<le> k \<Longrightarrow> k < b \<Longrightarrow> \<exists>e'. outcome (net k) = Throws e'"
    using assms(2) by simp
  then have "\<exists>p' w'. downloadFile_loop net u out n 0 p w = (Inl (Thrown e), p', w')
     \<and> files w' = files w - {out}
     \<and> requests w' = requests w @ replicate (b - 0 + 1) u
     \<and> sleeps w' = sleeps w @ map (\<lambda>k. 1000 * k) [0 + 1..<b + 1]"
    using assms(1,3) by (intro loop_write_error) simp_all
  then show ?thesis by (auto simp: downloadFile_def)
qed

theorem write_stream_failure_not_retried_witness:
  "(0::nat) < 3
   \<and> (\<exists>p' w'. downloadFile (\<lambda>k. \<lparr>events = [], outcome = Piped (WriteError (LibError ''ENOSPC''))\<rparr>)
         ''https://example.com/video.mp4'' ''downloads/video.mp4''
         \<lparr>downloadId = ''job'', p_url = ''https://example.com/video.mp4'', p_title = ''video'',
           progress = 0, downloadedBytes = 0, totalBytes = 0, speed = 0,
           status = Downloading, error = None\<rparr>
         (Some 3)
         \<lparr>files = {''downloads/video.mp4''}, reports = [], sleeps = [], requests = []\<rparr> =
         (Inl (Thrown (LibError ''ENOSPC'')), p', w')
       \<and> ''downloads/video.mp4'' \<notin> files w'
       \<and> requests w' = [''https://example.com/video.mp4'']
       \<and> sleeps w' = [])"
  using write_stream_failure_not_retried
    [of 0 3 "\<lambda>k. \<lparr>events = [], outcome = Piped (WriteError (LibError ''ENOSPC''))\<rparr>"
      "LibError ''ENOSPC''" "''https://example.com/video.mp4''" "''downloads/video.mp4''"
      "\<lparr>downloadId = ''job'', p_url = ''https://example.com/video.mp4'', p_title = ''video'',
           progress = 0, downloadedBytes = 0, totalBytes = 0, speed = 0,
           status = Downloading, error = None\<rparr>"
      "\<lparr>files = {''downloads/video.mp4''}, reports = [], sleeps = [], requests = []\<rparr>"]
  by simp

subsection \<open>Rounding to doubles is monotone\<close>

lemma rne_cases: "rne x = \<lfloor>x\<rfloor> \<or> rne x = \<lfloor>x\<rfloor> + 1"
  by (simp add: rne_def Let_def)

lemma rne_of_int: "rne (of_int n) = n"
  by (simp add: rne_def Let_def)

lemma rne_mono: "x \<le> y \<Longrightarrow> rne x \<le> rne y"
proof -
  assume xy: "x \<le> y"
  then have fg: "\<lfloor>x\<rfloor> \<le> \<lfloor>y\<rfloor>" by (rule floor_mono)
  show ?thesis
  proof (cases "\<lfloor>x\<rfloor> = \<lfloor>y\<rfloor>")
    case True
    with xy have "x - of_int \<lfloor>x\<rfloor> \<le> y - of_int \<lfloor>y\<rfloor>" by simp
    with True show ?thesis by (auto simp: rne_def Let_def)
  next
    case False
    with fg have "\<lfloor>x\<rfloor> + 1 \<le> \<lfloor>y\<rfloor>" by simp
    moreover have "rne x \<le> \<lfloor>x\<rfloor> + 1" using rne_cases[of x] by auto
    moreover have "\<lfloor>y\<rfloor> \<le> rne y" using rne_cases[of y] by auto
    ultimately show ?thesis by simp
  qed
qed

lemma rne_lower: "of_int n \<le> x \<Longrightarrow> n \<le> rne x"
  using rne_mono[of "of_int n" x] by (simp add: rne_of_int)

lemma rne_upper: "x \<le> of_int n \<Longrightarrow> rne x \<le> n"
  using rne_mono[of x "of_int n"] by (simp add: rne_of_int)

lemma expo_down_bounds:
  "2 ^ 52 \<le> x \<Longrightarrow> 2 ^ 52 * 2 powi expo_down x \<le> x \<and> x < 2 ^ 53 * 2 powi expo_down x"
proof (induction x rule: expo_down.induct)
  case (1 x)
  show ?case
  proof (cases "2 ^ 53 \<le> x")
    case True
    then have "2 ^ 52 \<le> x / 2" by simp
    with "1.IH"[OF True] have ih: "2 ^ 52 * 2 powi expo_down (x / 2) \<le> x / 2"
      "x / 2 < 2 ^ 53 * 2 powi expo_down (x / 2)" by simp_all
    have e: "expo_down x = expo_down (x / 2) + 1"
      using True by (subst expo_down.simps) simp
    have p: "(2::real) powi (expo_down (x / 2) + 1) = 2 powi expo_down (x / 2) * 2"
      by (simp add: power_int_add_1)
    from ih show ?thesis unfolding e p by simp
  next
    case False
    then have e: "expo_down x = 0" by (subst expo_down.simps) simp
    with False "1.prems" show ?thesis by simp
  qed
qed

lemma expo_up_bounds:
  "0 < x \<Longrightarrow> x < 2 ^ 53 \<Longrightarrow>
     2 ^ 52 * 2 powi expo_up x \<le> x \<and> x < 2 ^ 53 * 2 powi expo_up x"
proof (induction x rule: expo_up.induct)
  case (1 x)
  show ?case
  proof (cases "x < 2 ^ 52")
    case True
    with "1.prems" have c: "0 < x \<and> x < 2 ^ 52" by simp
    have "0 < 2 * x" "2 * x < 2 ^ 53" using c by simp_all
    with "1.IH"[OF c] have ih: "2 ^ 52 * 2 powi expo_up (2 * x) \<le> 2 * x"
      "2 * x < 2 ^ 53 * 2 powi expo_up (2 * x)" by simp_all
    have e: "expo_up x = expo_up (2 * x) - 1"
      using c by (subst expo_up.simps) simp
    have p: "(2::real) powi (expo_up (2 * x) - 1) = 2 powi expo_up (2 * x) / 2"
      by (simp add: power_int_diff)
    from ih show ?thesis unfolding e p by simp
  next
    case False
    then have e: "expo_up x = 0" by (subst expo_up.simps) simp
    with False "1.prems" show ?thesis by simp
  qed
qed

lemma expo_bounds:
  "0 < x \<Longrightarrow> 2 ^ 52 * 2 powi expo x \<le> x \<and> x < 2 ^ 53 * 2 powi expo x"
  using expo_down_bounds[of x] expo_up_bounds[of x] by (simp add: expo_def)

lemma expo_mono:
  assumes "0 < x" and "x \<le> y"
  shows "expo x \<le> expo y"
proof (rule ccontr)
  assume "\<not> expo x \<le> expo y"
  then have "expo y + 1 \<le> expo x" by simp
  then have "(2::real) powi (expo y + 1) \<le> 2 powi expo x"
    by (intro power_int_increasing) simp_all
  then have "(2::real) ^ 53 * 2 powi expo y \<le> 2 ^ 52 * 2 powi expo x"
    by (simp add: power_int_add_1)
  also have "\<dots> \<le> x" using expo_bounds[OF assms(1)] by simp
  also have "\<dots> \<le> y" by (rule assms(2))
  finally show False using expo_bounds[of y] assms by simp
qed

lemma fl_nonneg: "0 \<le> fl x"
proof (cases "x \<le> 0")
  case True
  then show ?thesis by (simp add: fl_def)
next
  case False
  then have "0 < x" by simp
  from expo_bounds[OF this] have "0 \<le> x / 2 powi expo x" by simp
  then have "0 \<le> rne (x / 2 powi expo x)" using rne_lower[of 0] by simp
  with False show ?thesis by (simp add: fl_def)
qed

lemma fl_mono:
  assumes "x \<le> y"
  shows "fl x \<le> fl y"
proof (cases "x \<le> 0")
  case True
  then show ?thesis using fl_nonneg[of y] by (simp add: fl_def)
next
  case False
  then have x: "0 < x" and y: "0 < y" using assms by simp_all
  note bx = expo_bounds[OF x] and by' = expo_bounds[OF y]
  have px: "0 < (2::real) powi expo x" and py: "0 < (2::real) powi expo y" by simp_all
  show ?thesis
  proof (cases "expo x = expo y")
    case True
    have "x / 2 powi expo y \<le> y / 2 powi expo y"
      using assms py by (simp add: divide_right_mono)
    then have "rne (x / 2 powi expo y) \<le> rne (y / 2 powi expo y)" by (rule rne_mono)
    then have "of_int (rne (x / 2 powi expo y)) * 2 powi expo y
        \<le> (of_int (rne (y / 2 powi expo y)) :: real) * 2 powi expo y"
      using py by (simp add: mult_right_mono)
    with x y True show ?thesis by (simp add: fl_def)
  next
    case False
    with expo_mono[OF x assms] have "expo x + 1 \<le> expo y" by simp
    then have "(2::real) powi (expo x + 1) \<le> 2 powi expo y"
      by (intro power_int_increasing) simp_all
    then have step: "(2::real) ^ 53 * 2 powi expo x \<le> 2 ^ 52 * 2 powi expo y"
      by (simp add: power_int_add_1)
    have "x / 2 powi expo x \<le> of_int (2 ^ 53)"
      using bx px by (simp add: pos_divide_le_eq)
    then have "rne (x / 2 powi expo x) \<le> 2 ^ 53" by (rule rne_upper)
    then have "(of_int (rne (x / 2 powi expo x)) :: real) \<le> 2 ^ 53"
      by (metis of_int_le_iff of_int_numeral of_int_power)
    then have "of_int (rne (x / 2 powi expo x)) * 2 powi expo x \<le> (2::real) ^ 53 * 2 powi expo x"
      using px by (simp add: mult_right_mono)
    also note step
    also have "(2::real) ^ 52 * 2 powi expo y \<le> of_int (rne (y / 2 powi expo y)) * 2 powi expo y"
    proof -
      have "of_int (2 ^ 52) \<le> y / 2 powi expo y"
        using by' py by (simp add: pos_le_divide_eq)
      then have "2 ^ 52 \<le> rne (y / 2 powi expo y)" by (rule rne_lower)
      then have "(2::real) ^ 52 \<le> of_int (rne (y / 2 powi expo y))"
        by (metis of_int_le_iff of_int_numeral of_int_power)
      then show ?thesis using py by (simp add: mult_right_mono)
    qed
    finally show ?thesis using x y by (simp add: fl_def)
  qed
qed

lemma percent_mono:
  assumes "0 < t1" and "0 < t2" and "l1 * t2 \<le> l2 * t1"
  shows "percent l1 t1 \<le> percent l2 t2"
proof -
  have "real l1 * real t2 \<le> real l2 * real t1"
    using assms(3) by (metis of_nat_mult of_nat_le_iff)
  then have "real l1 / real t1 \<le> real l2 / real t2"
    using assms(1,2) by (simp add: frac_le_eq field_simps)
  then have "fl (real l1 / real t1) \<le> fl (real l2 / real t2)" by (rule fl_mono)
  then have "fl (real l1 / real t1) * 100 \<le> fl (real l2 / real t2) * 100" by simp
  then have "fl (fl (real l1 / real t1) * 100) \<le> fl (fl (real l2 / real t2) * 100)"
    by (rule fl_mono)
  then have "\<lfloor>fl (fl (real l1 / real t1) * 100) + 1 / 2\<rfloor>
      \<le> \<lfloor>fl (fl (real l2 / real t2) * 100) + 1 / 2\<rfloor>"
    by (intro floor_mono) simp
  then show ?thesis by (simp add: percent_def nat_mono)
qed

lemma percent_values:
  "percent 512 512 = 100" "percent 7500000 75000000 = 10" "percent 75000000 75000000 = 100"
  "percent 29 200 = 14"
  by (simp_all add: percent_def fl_def expo_def expo_up.simps rne_def Let_def)

subsection \<open>Orchestrator: job table and progress\<close>


lemma scenario_test: "HttpExtractor_test ''https://example.com/video.mp4''"
  by code_simp

lemma scenario_extract:
  "HttpExtractor_extract (\<lambda>u. Inr [(''content-length'', ''75000000'')])
     ''https://example.com/video.mp4'' =
     Inr \<lparr>title = ''video'', description = None, duration = None, thumbnail = None,
          streams = [\<lparr>url = ''https://example.com/video.mp4'', format = ''mp4'',
                      quality = ''720p'', fileSize = Some (Some 75000000),
                      codec = None, headers = None\<rparr>],
          subtitles = Some [], originalUrl = ''https://example.com/video.mp4''\<rparr>"
  by code_simp

lemma scenario_md_extract:
  "md_extract (registerExtractor new_MediaDownloader
        (HttpExtractor (\<lambda>u. Inr [(''content-length'', ''75000000'')])))
     ''https://example.com/video.mp4'' =
     Inr \<lparr>title = ''video'', description = None, duration = None, thumbnail = None,
          streams = [\<lparr>url = ''https://example.com/video.mp4'', format = ''mp4'',
                      quality = ''720p'', fileSize = Some (Some 75000000),
                      codec = None, headers = None\<rparr>],
          subtitles = Some [], originalUrl = ''https://example.com/video.mp4''\<rparr>"
  by (simp add: md_extract_def findExtractor_def registerExtractor_def new_MediaDownloader_def
      HttpExtractor_def scenario_test scenario_extract)

lemma scenario_select:
  "selectBestStream [\<lparr>url = ''https://example.com/video.mp4'', format = ''mp4'',
                      quality = ''720p'', fileSize = Some (Some 75000000),
                      codec = None, headers = None\<rparr>]
     \<lparr>outputPath = ''downloads'', o_format = None, o_quality = None, audioQuality = None\<rparr>
   = Some \<lparr>url = ''https://example.com/video.mp4'', format = ''mp4'',
                      quality = ''720p'', fileSize = Some (Some 75000000),
                      codec = None, headers = None\<rparr>"
  by (simp add: selectBestStream_def truthy_def)

lemma scenario_filename: "generateFilename ''video'' ''mp4'' = ''video.mp4''"
  by code_simp

text \<open>
  C1 says that the job is removed from the table of active downloads on both terminal
  states, before \<open>download\<close> returns or re-raises. On the error path the code does not do
  that. Here the generic-file extractor is registered, the probe answers, one stream is
  selected, and each of the three \<open>GET\<close> attempts fails: \<open>download\<close> re-raises the error of the
  engine, the job was reported as \<open>pending\<close>, \<open>downloading\<close>, \<open>error\<close>, and its entry is still
  in the table afterwards, with status \<open>error\<close>.
\<close>

theorem download_error_keeps_job:
  "case download
     \<lparr>generateId = ''1730000000000_k3j9x2m1q'',
      attempts = (\<lambda>k. \<lparr>events = [], outcome = Throws (LibError ''socket hang up'')\<rparr>),
      transcoder = (\<lambda>c. Ended), unlink_ok = True\<rparr>
     (registerExtractor new_MediaDownloader
        (HttpExtractor (\<lambda>u. Inr [(''content-length'', ''75000000'')])))
     \<lparr>files = {}, reports = [], sleeps = [], requests = []\<rparr>
     ''https://example.com/video.mp4''
     \<lparr>outputPath = ''downloads'', o_format = None, o_quality = None, audioQuality = None\<rparr>
   of (res, md', w') \<Rightarrow>
     res = Inl (DownloadFailedAfter 3 ''socket hang up'')
     \<and> map_option status (activeDownloads md' ''1730000000000_k3j9x2m1q'') = Some Errored
     \<and> map status (reports w') = [Pending, Downloading, Errored]"
  unfolding download_def scenario_md_extract
  by (simp add: Let_def scenario_select scenario_filename downloadFile_def
      downloadFile_loop.simps download_catch_def set_job_def onProgress_def
      catch_message_def)

text \<open>
  C2, as stated, makes the reported percent non-decreasing across the retry attempts of the
  engine. The handler overwrites the percent from each event alone, and every attempt
  registers the same handler on the same job record. Here the first attempt is answered
  with an error status and a 512-byte body (one event, 512 of 512) and is rejected, and the
  second attempt succeeds and reports 10 and then 100 percent of the file: the job
  completes, and while its status was \<open>downloading\<close> the reported percent went
  0, 100, 10, 100.
\<close>

theorem progress_not_monotone_across_retries:
  "case download
     \<lparr>generateId = ''1730000000000_k3j9x2m1q'',
      attempts = (\<lambda>k. if k = 0
         then \<lparr>events = [\<lparr>loaded = 512, total = Some 512, rate = None\<rparr>],
               outcome = Throws (LibError ''Request failed with status code 503'')\<rparr>
         else \<lparr>events = [\<lparr>loaded = 7500000, total = Some 75000000, rate = None\<rparr>,
                         \<lparr>loaded = 75000000, total = Some 75000000, rate = None\<rparr>],
               outcome = Piped Finish\<rparr>),
      transcoder = (\<lambda>c. Ended), unlink_ok = True\<rparr>
     (registerExtractor new_MediaDownloader
        (HttpExtractor (\<lambda>u. Inr [(''content-length'', ''75000000'')])))
     \<lparr>files = {}, reports = [], sleeps = [], requests = []\<rparr>
     ''https://example.com/video.mp4''
     \<lparr>outputPath = ''downloads'', o_format = None, o_quality = None, audioQuality = None\<rparr>
   of (res, md', w') \<Rightarrow>
     res = Inr ''downloads/video.mp4''
     \<and> map (\<lambda>r. (status r, progress r)) (reports w') =
         [(Pending, 0), (Downloading, 0), (Downloading, 100), (Downloading, 10),
          (Downloading, 100), (Completed, 100)]
     \<and> \<not> sorted (map progress (filter (\<lambda>r. status r = Downloading) (reports w')))"
  unfolding download_def scenario_md_extract
  by (simp add: Let_def scenario_select scenario_filename downloadFile_def
      downloadFile_loop.simps onDownloadProgress_def percent_values truthy_def
      download_catch_def set_job_def delete_job_def onProgress_def catch_message_def)



lemma handler_reports:
  "onDownloadProgress ev (p, w) = (p', w') \<Longrightarrow>
     status p' = status p \<and> requests w' = requests w
     \<and> (\<exists>rs. reports w' = reports w @ rs
          \<and> map progress rs = map (\<lambda>e. percent (loaded e) (the (total e))) (filter effective [ev])
          \<and> (\<forall>r\<in>set rs. status r = status p))"
  by (auto simp: onDownloadProgress_def onProgress_def effective_def Let_def
      split: option.splits if_splits)

lemma fold_reports:
  "fold onDownloadProgress evs (p, w) = (p', w') \<Longrightarrow>
     status p' = status p \<and> requests w' = requests w
     \<and> (\<exists>rs. reports w' = reports w @ rs
          \<and> map progress rs = map (\<lambda>e. percent (loaded e) (the (total e))) (filter effective evs)
          \<and> (\<forall>r\<in>set rs. status r = status p))"
proof (induction evs arbitrary: p w)
  case Nil
  then show ?case by simp
next
  case (Cons ev evs)
  let ?pc = "\<lambda>e. percent (loaded e) (the (total e))"
  obtain p1 w1 where s: "onDownloadProgress ev (p, w) = (p1, w1)"
    by (cases "onDownloadProgress ev (p, w)")
  from handler_reports[OF s] obtain rs1 where 1: "status p1 = status p" "requests w1 = requests w"
    "reports w1 = reports w @ rs1" "map progress rs1 = map ?pc (filter effective [ev])"
    "\<forall>r\<in>set rs1. status r = status p" by blast
  have "fold onDownloadProgress evs (p1, w1) = (p', w')" using Cons.prems s by simp
  from Cons.IH[OF this] obtain rs2 where 2: "status p' = status p1" "requests w' = requests w1"
    "reports w' = reports w1 @ rs2" "map progress rs2 = map ?pc (filter effective evs)"
    "\<forall>r\<in>set rs2. status r = status p1" by blast
  have "reports w' = reports w @ (rs1 @ rs2)" using 1 2 by simp
  moreover have "map progress (rs1 @ rs2) = map ?pc (filter effective (ev # evs))"
    using 1(4) 2(4) by simp
  moreover have "\<forall>r\<in>set (rs1 @ rs2). status r = status p" using 1 2 by auto
  ultimately have "\<exists>rs. reports w' = reports w @ rs
          \<and> map progress rs = map ?pc (filter effective (ev # evs))
          \<and> (\<forall>r\<in>set rs. status r = status p)" by (intro exI[of _ "rs1 @ rs2"]) simp
  moreover have "status p' = status p" using 1 2 by simp
  moreover have "requests w' = requests w" using 1 2 by simp
  ultimately show ?case by simp
qed

lemma loop_reports:
  "downloadFile_loop net u out n a p w = (res, p', w') \<Longrightarrow>
     status p' = status p
     \<and> (\<exists>k rs. length (requests w') = length (requests w) + k
          \<and> reports w' = reports w @ rs
          \<and> map progress rs =
              map (\<lambda>e. percent (loaded e) (the (total e)))
                (concat (map (\<lambda>i. filter effective (events (net i))) [a..<a + k]))
          \<and> (\<forall>r\<in>set rs. status r = status p))"
proof (induction "n - a" arbitrary: a p w)
  case 0
  then have "\<not> a < n" by simp
  with "0.prems" have "p' = p" "w' = w"
    by (subst (asm) downloadFile_loop.simps; simp)+
  then have "length (requests w') = length (requests w) + 0 \<and> reports w' = reports w @ []
      \<and> map progress [] = map (\<lambda>e. percent (loaded e) (the (total e)))
                (concat (map (\<lambda>i. filter effective (events (net i))) [a..<a + 0]))
      \<and> (\<forall>r\<in>set []. status r = status p)" by simp
  then have "\<exists>k rs. length (requests w') = length (requests w) + k
          \<and> reports w' = reports w @ rs
          \<and> map progress rs = map (\<lambda>e. percent (loaded e) (the (total e)))
                (concat (map (\<lambda>i. filter effective (events (net i))) [a..<a + k]))
          \<and> (\<forall>r\<in>set rs. status r = status p)"
    by (intro exI[of _ 0] exI[of _ "[]"])
  then show ?case using \<open>p' = p\<close> by simp
next
  case (Suc d)
  let ?pc = "\<lambda>e. percent (loaded e) (the (total e))"
  let ?ev = "\<lambda>i. filter effective (events (net i))"
  from Suc have lt: "a < n" by simp
  obtain p1 w1 where f: "fold onDownloadProgress (events (net a)) (p, w\<lparr>requests := requests w @ [u]\<rparr>) = (p1, w1)"
    by (cases "fold onDownloadProgress (events (net a)) (p, w\<lparr>requests := requests w @ [u]\<rparr>)")
  from fold_reports[OF f] obtain rs1 where 1: "status p1 = status p"
    "requests w1 = requests w @ [u]" "reports w1 = reports w @ rs1"
    "map progress rs1 = map ?pc (?ev a)" "\<forall>r\<in>set rs1. status r = status p"
    by auto
  have one: "length (requests w1) = length (requests w) + 1 \<and> reports w1 = reports w @ rs1
      \<and> map progress rs1 = map ?pc (concat (map ?ev [a..<a + 1]))
      \<and> (\<forall>r\<in>set rs1. status r = status p)"
    using 1 by simp
  consider (stop) "p' = p1" "reports w' = reports w1" "requests w' = requests w1"
    | (again) "a + 1 < n"
        "downloadFile_loop net u out n (a + 1) p1 (w1\<lparr>sleeps := sleeps w1 @ [1000 * (a + 1)]\<rparr>)
           = (res, p', w')"
  proof (cases "outcome (net a)")
    case (Piped r)
    with Suc.prems lt f have "p' = p1 \<and> reports w' = reports w1 \<and> requests w' = requests w1"
      by (subst (asm) downloadFile_loop.simps) (cases r; auto)
    then show ?thesis using stop by blast
  next
    case (Throws e0)
    show ?thesis
    proof (cases "a + 1 \<ge> n")
      case True
      with Suc.prems lt f Throws have "p' = p1 \<and> w' = w1"
        by (subst (asm) downloadFile_loop.simps) auto
      then show ?thesis using stop by blast
    next
      case False
      with Suc.prems lt f Throws
      have "downloadFile_loop net u out n (a + 1) p1 (w1\<lparr>sleeps := sleeps w1 @ [1000 * (a + 1)]\<rparr>)
           = (res, p', w')"
        by (subst (asm) downloadFile_loop.simps) simp
      with False show ?thesis using again by simp
    qed
  qed
  then show ?case
  proof cases
    case stop
    have "length (requests w') = length (requests w) + 1 \<and> reports w' = reports w @ rs1
      \<and> map progress rs1 = map ?pc (concat (map ?ev [a..<a + 1]))
      \<and> (\<forall>r\<in>set rs1. status r = status p)"
      using one stop by simp
    then have "\<exists>k rs. length (requests w') = length (requests w) + k
          \<and> reports w' = reports w @ rs
          \<and> map progress rs = map ?pc (concat (map ?ev [a..<a + k]))
          \<and> (\<forall>r\<in>set rs. status r = status p)"
      by (intro exI[of _ 1] exI[of _ rs1])
    moreover have "status p' = status p" using stop 1 by simp
    ultimately show ?thesis by simp
  next
    case again
    let ?w2 = "w1\<lparr>sleeps := sleeps w1 @ [1000 * (a + 1)]\<rparr>"
    have d: "d = n - (a + 1)" using Suc.hyps(2) by simp
    from Suc.hyps(1)[OF d again(2)] obtain k rs2 where 2: "status p' = status p1"
      "length (requests w') = length (requests ?w2) + k" "reports w' = reports ?w2 @ rs2"
      "map progress rs2 = map ?pc (concat (map ?ev [a + 1..<a + 1 + k]))"
      "\<forall>r\<in>set rs2. status r = status p1" by blast
    have "[a..<a + (k + 1)] = a # [a + 1..<a + 1 + k]" by (simp add: upt_conv_Cons)
    then have "map progress (rs1 @ rs2) = map ?pc (concat (map ?ev [a..<a + (k + 1)]))"
      using 1(4) 2(4) by simp
    moreover have "length (requests w') = length (requests w) + (k + 1)" using 1 2 by simp
    moreover have "reports w' = reports w @ (rs1 @ rs2)" using 1 2 by simp
    moreover have "\<forall>r\<in>set (rs1 @ rs2). status r = status p" using 1 2 by auto
    ultimately have "\<exists>k rs. length (requests w') = length (requests w) + k
          \<and> reports w' = reports w @ rs
          \<and> map progress rs = map ?pc (concat (map ?ev [a..<a + k]))
          \<and> (\<forall>r\<in>set rs. status r = status p)"
      by (intro exI[of _ "k + 1"] exI[of _ "rs1 @ rs2"]) simp
    moreover have "status p' = status p" using 1 2 by simp
    ultimately show ?thesis by simp
  qed
qed


lemma download_catch_reports:
  "download_catch i e md w = (res, md', w') \<Longrightarrow>
     requests w' = requests w \<and> (\<exists>B. reports w' = reports w @ B \<and> (\<forall>r\<in>set B. status r = Errored))
     \<and> (\<forall>path. res \<noteq> Inr path)"
  by (auto simp: download_catch_def onProgress_def Let_def split: option.splits)

lemma download_reports:
  assumes run: "download en md w u options = (res, md', w')"
  shows "\<exists>k A rs B. length (requests w') = length (requests w) + k
     \<and> reports w' = reports w @ A @ rs @ B
     \<and> map progress rs = map (\<lambda>e. percent (loaded e) (the (total e))) (delivered (attempts en) k)
     \<and> (\<forall>r\<in>set rs. status r = Downloading)
     \<and> (map progress (filter (\<lambda>r. status r = Downloading) A) = [] \<and> k = 0
          \<or> map progress (filter (\<lambda>r. status r = Downloading) A) = [0])
     \<and> (\<forall>r\<in>set A. status r \<noteq> Completed)
     \<and> (\<forall>r\<in>set B. status r = Errored \<or> (status r = Completed \<and> progress r = 100))
     \<and> (\<forall>path. res = Inr path \<longrightarrow> (\<exists>f. B = [f] \<and> status f = Completed \<and> progress f = 100))"
proof -
  let ?pc = "\<lambda>e. percent (loaded e) (the (total e))"
  let ?dl = "\<lambda>r. status r = Downloading"
  let ?i = "generateId en"
  let ?goal = "\<lambda>k A rs B. length (requests w') = length (requests w) + k
     \<and> reports w' = reports w @ A @ rs @ B
     \<and> map progress rs = map ?pc (delivered (attempts en) k)
     \<and> (\<forall>r\<in>set rs. status r = Downloading)
     \<and> (map progress (filter ?dl A) = [] \<and> k = 0 \<or> map progress (filter ?dl A) = [0])
     \<and> (\<forall>r\<in>set A. status r \<noteq> Completed)
     \<and> (\<forall>r\<in>set B. status r = Errored \<or> (status r = Completed \<and> progress r = 100))
     \<and> (\<forall>path. res = Inr path \<longrightarrow> (\<exists>f. B = [f] \<and> status f = Completed \<and> progress f = 100))"
  show ?thesis
  proof (cases "md_extract md u")
    case (Inl e)
    with run have "download_catch ?i e md w = (res, md', w')"
      by (simp add: download_def)
    from download_catch_reports[OF this] obtain B where
      "requests w' = requests w" "reports w' = reports w @ B" "\<forall>r\<in>set B. status r = Errored"
      "\<forall>path. res \<noteq> Inr path" by blast
    then have "?goal 0 [] [] B" by (simp add: delivered_def)
    then show ?thesis
      by - (rule exI[of _ 0], rule exI[of _ "[]"], rule exI[of _ "[]"], rule exI[of _ "B"],
          assumption)
  next
    case (Inr er)
    let ?p0 = "\<lparr>downloadId = ?i, p_url = u, p_title = title er,
                progress = 0, downloadedBytes = 0, totalBytes = 0, speed = 0,
                status = Pending, error = None\<rparr>"
    let ?md1 = "set_job md ?i ?p0"
    let ?w1 = "onProgress ?p0 w"
    show ?thesis
    proof (cases "selectBestStream (streams er) options")
      case None
      with run Inr have "download_catch ?i NoSuitableStream ?md1 ?w1 = (res, md', w')"
        by (simp add: download_def Let_def)
      from download_catch_reports[OF this] obtain B where
        "requests w' = requests ?w1" "reports w' = reports ?w1 @ B"
        "\<forall>r\<in>set B. status r = Errored" "\<forall>path. res \<noteq> Inr path" by blast
      then have "?goal 0 [?p0] [] B" by (simp add: delivered_def onProgress_def)
      then show ?thesis
        by - (rule exI[of _ 0], rule exI[of _ "[?p0]"], rule exI[of _ "[]"], rule exI[of _ "B"],
            assumption)
    next
      case (Some sel)
      let ?p1 = "?p0\<lparr>status := Downloading\<rparr>"
      let ?md2 = "set_job ?md1 ?i ?p1"
      let ?w2 = "onProgress ?p1 ?w1"
      let ?filePath = "outputPath options @ ''/'' @ generateFilename (title er) (format sel)"
      obtain r2 p2 w3 where dl:
        "downloadFile (attempts en) (url sel) ?filePath ?p1 None ?w2 = (r2, p2, w3)"
        by (cases "downloadFile (attempts en) (url sel) ?filePath ?p1 None ?w2")
      from loop_reports[OF dl[unfolded downloadFile_def]]
      obtain k rs where eng: "status p2 = Downloading"
        "length (requests w3) = length (requests ?w2) + k" "reports w3 = reports ?w2 @ rs"
        "map progress rs = map ?pc (concat (map (\<lambda>i. filter effective (events (attempts en i))) [0..<0 + k]))"
        "\<forall>r\<in>set rs. status r = Downloading"
        by auto
      have base: "length (requests w3) = length (requests w) + k"
        "reports w3 = reports w @ [?p0, ?p1] @ rs"
        "map progress rs = map ?pc (delivered (attempts en) k)"
        "\<forall>r\<in>set rs. status r = Downloading"
        using eng by (simp_all add: onProgress_def delivered_def)
      have A: "map progress (filter ?dl [?p0, ?p1]) = [0]" "\<forall>r\<in>set [?p0, ?p1]. status r \<noteq> Completed"
        by simp_all
      let ?md3 = "set_job ?md2 ?i p2"
      let ?done = "p2\<lparr>status := Completed, progress := 100\<rparr>"
      show ?thesis
      proof (cases r2)
        case (Inl e)
        with run Inr Some dl have "download_catch ?i e ?md3 w3 = (res, md', w')"
          by (simp add: download_def Let_def)
        from download_catch_reports[OF this] obtain B where
          "requests w' = requests w3" "reports w' = reports w3 @ B"
          "\<forall>r\<in>set B. status r = Errored" "\<forall>path. res \<noteq> Inr path" by blast
        with base A have "?goal k [?p0, ?p1] rs B" by simp
        then show ?thesis
          by - (rule exI[of _ k], rule exI[of _ "[?p0, ?p1]"], rule exI[of _ "rs"], rule exI[of _ "B"],
              assumption)
      next
        case (Inr path2)
        show ?thesis
        proof (cases "truthy (o_format options) \<and> isAudioFormat (the (o_format options))")
          case False
          with run \<open>md_extract md u = Inr er\<close> Some dl Inr
          have "res = Inr ?filePath" "w' = onProgress ?done w3"
            by (auto simp add: download_def Let_def)
          then have "requests w' = requests w3" "reports w' = reports w3 @ [?done]"
            by (simp_all add: onProgress_def)
          with base A have "?goal k [?p0, ?p1] rs [?done]" by simp
          then show ?thesis
            by - (rule exI[of _ k], rule exI[of _ "[?p0, ?p1]"], rule exI[of _ "rs"], rule exI[of _ "[?done]"],
                assumption)
        next
          case True
          let ?audioPath = "generateAudioFilename ?filePath (the (o_format options))"
          let ?conv = "fst (convertToAudio (transcoder en)
                \<lparr>inputPath = ?filePath, a_outputPath = ?audioPath,
                 a_format = the (o_format options), a_quality = audioQuality options\<rparr>)"
          let ?w4 = "if success ?conv then w3\<lparr>files := insert ?audioPath (files w3)\<rparr> else w3"
          have w4: "requests ?w4 = requests w3" "reports ?w4 = reports w3" by simp_all
          show ?thesis
          proof (cases "success ?conv \<and> truthy (r_outputPath ?conv)")
            case ok: True
            let ?w5 = "if unlink_ok en then ?w4\<lparr>files := files ?w4 - {?filePath}\<rparr> else ?w4"
            have w5: "requests ?w5 = requests w3" "reports ?w5 = reports w3" by simp_all
            from run \<open>md_extract md u = Inr er\<close> Some dl Inr True ok
            have "w' = onProgress ?done ?w5" "\<exists>path. res = Inr path"
              by (auto simp add: download_def Let_def)
            then have "requests w' = requests w3" "reports w' = reports w3 @ [?done]"
              using w5 by (simp_all add: onProgress_def)
            with base A have "?goal k [?p0, ?p1] rs [?done]" by simp
            then show ?thesis
              by - (rule exI[of _ k], rule exI[of _ "[?p0, ?p1]"], rule exI[of _ "rs"], rule exI[of _ "[?done]"],
                  assumption)
          next
            case bad: False
            from run \<open>md_extract md u = Inr er\<close> Some dl Inr True bad
            have "download_catch ?i (AudioConversionFailed (r_error ?conv)) ?md3 ?w4 = (res, md', w')"
              by (auto simp add: download_def Let_def)
            from download_catch_reports[OF this] obtain B where
              "requests w' = requests ?w4" "reports w' = reports ?w4 @ B"
              "\<forall>r\<in>set B. status r = Errored" "\<forall>path. res \<noteq> Inr path" by blast
            with base A w4 have "?goal k [?p0, ?p1] rs B" by simp
            then show ?thesis
              by - (rule exI[of _ k], rule exI[of _ "[?p0, ?p1]"], rule exI[of _ "rs"], rule exI[of _ "B"],
                  assumption)
          qed
        qed
      qed
    qed
  qed
qed


lemma sorted_attempt_percents:
  assumes "sorted_wrt ratio_le (filter effective (events (net k)))"
  shows "sorted (attempt_percents net k)"
proof -
  let ?evs = "filter effective (events (net k))"
  have "sorted_wrt (\<lambda>x y. percent (loaded x) (the (total x)) \<le> percent (loaded y) (the (total y)))
          ?evs"
  proof (rule sorted_wrt_mono_rel[OF _ assms])
    fix x y
    assume "x \<in> set ?evs" "y \<in> set ?evs" "ratio_le x y"
    then have "effective x" "effective y" "ratio_le x y" by simp_all
    moreover obtain t1 where "total x = Some t1" "0 < t1"
      using \<open>effective x\<close> by (cases "total x") (simp_all add: effective_def)
    moreover obtain t2 where "total y = Some t2" "0 < t2"
      using \<open>effective y\<close> by (cases "total y") (simp_all add: effective_def)
    ultimately have "total x = Some t1" "0 < t1" "total y = Some t2" "0 < t2"
      "loaded x * t2 \<le> loaded y * t1"
      by (simp_all add: ratio_le_def)
    then show "percent (loaded x) (the (total x)) \<le> percent (loaded y) (the (total y))"
      using percent_mono[of t1 t2 "loaded x" "loaded y"] by simp
  qed
  then show ?thesis by (simp add: attempt_percents_def sorted_map)
qed

lemma delivered_percents:
  "map (\<lambda>e. percent (loaded e) (the (total e))) (delivered net n)
     = concat (map (attempt_percents net) [0..<n])"
proof -
  have "attempt_percents net
      = (\<lambda>k. map (\<lambda>e. percent (loaded e) (the (total e))) (filter effective (events (net k))))"
    by (rule ext) (simp add: attempt_percents_def)
  then show ?thesis by (simp add: delivered_def map_concat comp_def)
qed

lemma concat_all_empty: "(\<forall>x\<in>set xs. f x = []) \<Longrightarrow> concat (map f xs) = []"
  by (induction xs) simp_all

text \<open>
  C2, amended. The percents reported while the status is \<open>downloading\<close> are 0 (on entering
  the state) followed by \<open>Math.round((loaded / total) * 100)\<close> of each progress event with a
  non-zero total, attempt after attempt in the order of delivery, over the attempts the
  call made. Within each attempt whose events report a non-decreasing \<open>loaded / total\<close> these
  percents are non-decreasing. Over the whole \<open>downloading\<close> phase they are non-decreasing
  when moreover no attempt before the last one delivered such an event; an attempt that is
  retried after delivering events lets the next attempt start lower. Every report with
  status \<open>completed\<close> carries exactly 100, and a call that returns a path ends with such a
  report.
\<close>

theorem progress_monotone_within_attempt:
  assumes "download en md w u options = (res, md', w')"
  shows "(map progress (filter (\<lambda>r. status r = Downloading)
            (drop (length (reports w)) (reports w'))) = []
        \<or> map progress (filter (\<lambda>r. status r = Downloading)
            (drop (length (reports w)) (reports w')))
          = 0 # concat (map (attempt_percents (attempts en))
                  [0..<length (requests w') - length (requests w)]))
   \<and> (\<forall>k. sorted_wrt ratio_le (filter effective (events (attempts en k))) \<longrightarrow>
          sorted (attempt_percents (attempts en) k))
   \<and> ((\<forall>k. Suc k < length (requests w') - length (requests w) \<longrightarrow>
            attempt_percents (attempts en) k = [])
        \<and> sorted_wrt ratio_le (filter effective
              (events (attempts en (length (requests w') - length (requests w) - 1))))
        \<longrightarrow> sorted (map progress (filter (\<lambda>r. status r = Downloading)
                      (drop (length (reports w)) (reports w')))))
   \<and> (\<forall>r\<in>set (drop (length (reports w)) (reports w')). status r = Completed \<longrightarrow> progress r = 100)
   \<and> (\<forall>path. res = Inr path \<longrightarrow>
        reports w' \<noteq> [] \<and> status (last (reports w')) = Completed
        \<and> progress (last (reports w')) = 100)"
proof -
  let ?pc = "\<lambda>e. percent (loaded e) (the (total e))"
  let ?dl = "\<lambda>r. status r = Downloading"
  let ?ap = "attempt_percents (attempts en)"
  let ?n = "length (requests w') - length (requests w)"
  let ?ps = "map progress (filter ?dl (drop (length (reports w)) (reports w')))"
  from download_reports[OF assms] obtain k A rs B where
    k: "length (requests w') = length (requests w) + k"
    and rep: "reports w' = reports w @ A @ rs @ B"
    and rs: "map progress rs = map ?pc (delivered (attempts en) k)" "\<forall>r\<in>set rs. status r = Downloading"
    and A: "map progress (filter ?dl A) = [] \<and> k = 0 \<or> map progress (filter ?dl A) = [0]"
      "\<forall>r\<in>set A. status r \<noteq> Completed"
    and B: "\<forall>r\<in>set B. status r = Errored \<or> (status r = Completed \<and> progress r = 100)"
      "\<forall>path. res = Inr path \<longrightarrow> (\<exists>f. B = [f] \<and> status f = Completed \<and> progress f = 100)"
    by (elim exE conjE) (rule that)
  have new: "drop (length (reports w)) (reports w') = A @ rs @ B" using rep by simp
  have kn: "k = ?n" using k by simp
  have prs: "map progress rs = concat (map ?ap [0..<?n])"
    using rs(1) kn by (simp add: delivered_percents)
  have frs: "filter ?dl rs = rs" using rs(2) by simp
  have fB: "filter ?dl B = []" using B(1) by (auto simp: filter_empty_conv)
  have ps: "?ps = map progress (filter ?dl A) @ concat (map ?ap [0..<?n])"
    using new frs fB prs by simp
  have 1: "?ps = [] \<or> ?ps = 0 # concat (map ?ap [0..<?n])"
  proof -
    from A(1) show ?thesis
    proof (elim disjE conjE)
      assume "map progress (filter ?dl A) = []" "k = 0"
      then have "?ps = []" using ps kn by simp
      then show ?thesis by simp
    next
      assume "map progress (filter ?dl A) = [0]"
      then have "?ps = 0 # concat (map ?ap [0..<?n])" using ps by simp
      then show ?thesis by simp
    qed
  qed
  have 2: "\<forall>k. sorted_wrt ratio_le (filter effective (events (attempts en k))) \<longrightarrow>
          sorted (?ap k)"
    using sorted_attempt_percents by blast
  have 3: "(\<forall>k. Suc k < ?n \<longrightarrow> ?ap k = [])
        \<and> sorted_wrt ratio_le (filter effective (events (attempts en (?n - 1))))
        \<longrightarrow> sorted ?ps"
  proof
    assume h: "(\<forall>k. Suc k < ?n \<longrightarrow> ?ap k = [])
        \<and> sorted_wrt ratio_le (filter effective (events (attempts en (?n - 1))))"
    then have last_sorted: "sorted (?ap (?n - 1))" using sorted_attempt_percents by blast
    have c: "sorted (concat (map ?ap [0..<?n]))"
    proof (cases "?n")
      case 0
      then show ?thesis by simp
    next
      case (Suc m)
      then have "[0..<?n] = [0..<m] @ [m]" by simp
      then have "concat (map ?ap [0..<?n]) = concat (map ?ap [0..<m]) @ ?ap m" by simp
      moreover have "concat (map ?ap [0..<m]) = []"
        using h Suc by (intro concat_all_empty) simp
      moreover have "sorted (?ap m)" using last_sorted Suc by simp
      ultimately show ?thesis by simp
    qed
    from 1 show "sorted ?ps"
    proof
      assume "?ps = []"
      then show ?thesis by simp
    next
      assume "?ps = 0 # concat (map ?ap [0..<?n])"
      then show ?thesis using c by simp
    qed
  qed
  have 4: "\<forall>r\<in>set (drop (length (reports w)) (reports w')). status r = Completed \<longrightarrow> progress r = 100"
    using new A(2) rs(2) B(1) by auto
  have 5: "\<forall>path. res = Inr path \<longrightarrow>
        reports w' \<noteq> [] \<and> status (last (reports w')) = Completed
        \<and> progress (last (reports w')) = 100"
    using B(2) rep by auto
  from 1 2 3 4 5 show ?thesis by (intro conjI)
qed

text \<open>
  A run with one retry: the first attempt fails without any event, the second delivers 10
  and 100 percent and finishes.
\<close>

lemma scenario_retry_run:
  "case download
     \<lparr>generateId = ''1730000000000_k3j9x2m1q'',
      attempts = (\<lambda>k. if k = 0
         then \<lparr>events = [], outcome = Throws (LibError ''socket hang up'')\<rparr>
         else \<lparr>events = [\<lparr>loaded = 7500000, total = Some 75000000, rate = None\<rparr>,
                         \<lparr>loaded = 75000000, total = Some 75000000, rate = None\<rparr>],
               outcome = Piped Finish\<rparr>),
      transcoder = (\<lambda>c. Ended), unlink_ok = True\<rparr>
     (registerExtractor new_MediaDownloader
        (HttpExtractor (\<lambda>u. Inr [(''content-length'', ''75000000'')])))
     \<lparr>files = {}, reports = [], sleeps = [], requests = []\<rparr>
     ''https://example.com/video.mp4''
     \<lparr>outputPath = ''downloads'', o_format = None, o_quality = None, audioQuality = None\<rparr>
   of (res, md', w') \<Rightarrow>
     res = Inr ''downloads/video.mp4''
     \<and> requests w' = [''https://example.com/video.mp4'', ''https://example.com/video.mp4'']
     \<and> map (\<lambda>r. (status r, progress r)) (reports w') =
         [(Pending, 0), (Downloading, 0), (Downloading, 10), (Downloading, 100), (Completed, 100)]"
  unfolding download_def scenario_md_extract
  by (simp add: Let_def scenario_select scenario_filename downloadFile_def
      downloadFile_loop.simps onDownloadProgress_def percent_values truthy_def
      download_catch_def set_job_def delete_job_def onProgress_def catch_message_def)

theorem progress_monotone_within_attempt_witness:
  "case download
     \<lparr>generateId = ''1730000000000_k3j9x2m1q'',
      attempts = (\<lambda>k. if k = 0
         then \<lparr>events = [], outcome = Throws (LibError ''socket hang up'')\<rparr>
         else \<lparr>events = [\<lparr>loaded = 7500000, total = Some 75000000, rate = None\<rparr>,
                         \<lparr>loaded = 75000000, total = Some 75000000, rate = None\<rparr>],
               outcome = Piped Finish\<rparr>),
      transcoder = (\<lambda>c. Ended), unlink_ok = True\<rparr>
     (registerExtractor new_MediaDownloader
        (HttpExtractor (\<lambda>u. Inr [(''content-length'', ''75000000'')])))
     \<lparr>files = {}, reports = [], sleeps = [], requests = []\<rparr>
     ''https://example.com/video.mp4''
     \<lparr>outputPath = ''downloads'', o_format = None, o_quality = None, audioQuality = None\<rparr>
   of (res, md', w') \<Rightarrow>
     res = Inr ''downloads/video.mp4''
     \<and> length (requests w') = 2
     \<and> map progress (filter (\<lambda>r. status r = Downloading) (reports w')) = [0, 10, 100]
     \<and> sorted (map progress (filter (\<lambda>r. status r = Downloading) (reports w')))
     \<and> status (last (reports w')) = Completed \<and> progress (last (reports w')) = 100"
proof -
  let ?net = "\<lambda>k::nat. if k = 0
         then \<lparr>events = [], outcome = Throws (LibError ''socket hang up'')\<rparr>
         else \<lparr>events = [\<lparr>loaded = 7500000, total = Some 75000000, rate = None\<rparr>,
                         \<lparr>loaded = 75000000, total = Some 75000000, rate = None\<rparr>],
               outcome = Piped Finish\<rparr>"
  let ?en = "\<lparr>generateId = ''1730000000000_k3j9x2m1q'', attempts = ?net,
      transcoder = (\<lambda>c. Ended), unlink_ok = True\<rparr>"
  let ?md = "registerExtractor new_MediaDownloader
        (HttpExtractor (\<lambda>u. Inr [(''content-length'', ''75000000'')]))"
  let ?w = "\<lparr>files = {}, reports = [], sleeps = [], requests = []\<rparr>"
  let ?o = "\<lparr>outputPath = ''downloads'', o_format = None, o_quality = None, audioQuality = None\<rparr>"
  let ?dl = "\<lambda>r. status r = Downloading"
  obtain res md' w' where X: "download ?en ?md ?w ''https://example.com/video.mp4'' ?o = (res, md', w')"
    by (cases "download ?en ?md ?w ''https://example.com/video.mp4'' ?o")
  with scenario_retry_run have ev: "res = Inr ''downloads/video.mp4''"
    "requests w' = [''https://example.com/video.mp4'', ''https://example.com/video.mp4'']"
    by simp_all
  then have n: "length (requests w') - length (requests ?w) = 2" by simp
  have ap0: "attempt_percents ?net 0 = []" by (simp add: attempt_percents_def)
  have ap1: "attempt_percents ?net (Suc 0) = [10, 100]"
    by (simp add: attempt_percents_def effective_def percent_values)
  have silent: "\<forall>k. Suc k < 2 \<longrightarrow> attempt_percents ?net k = []"
    using ap0 by (simp add: less_Suc_eq)
  have cum: "sorted_wrt ratio_le (filter effective (events (?net (2 - 1))))"
    by (simp add: effective_def ratio_le_def)
  have two: "[0..<2::nat] = [0, 1]" by (simp add: upt_rec numeral_2_eq_2)
  note T = progress_monotone_within_attempt[OF X, unfolded n, simplified]
  from T have a: "map progress (filter ?dl (reports w')) = []
      \<or> map progress (filter ?dl (reports w')) = 0 # concat (map (attempt_percents ?net) [0..<2])"
    by simp
  from T silent cum have s: "sorted (map progress (filter ?dl (reports w')))" by simp
  from T ev(1) have c: "status (last (reports w')) = Completed \<and> progress (last (reports w')) = 100"
    by simp
  from scenario_retry_run X have "map status (reports w')
      = [Pending, Downloading, Downloading, Downloading, Completed]"
    by (simp add: map_eq_Cons_conv) auto
  then have "filter ?dl (reports w') \<noteq> []"
    by (auto simp: map_eq_Cons_conv)
  with a have "map progress (filter ?dl (reports w')) = [0, 10, 100]"
    by (simp add: two ap0 ap1)
  with s c ev n show ?thesis unfolding X by simp
qed

end
